theory Spec2Isabelle
  imports Complex_Main
begin

section \<open>Python strings\<close>

text \<open>
  A Python \<open>str\<close> is a sequence of Unicode code points; a code point is a natural
  number. \<open>cps\<close> turns an ASCII literal into its code points.
\<close>

type_synonym ustr = "nat list"

definition cps :: "string \<Rightarrow> ustr" where
  "cps s = map of_char s"

text \<open>\<open>s.startswith(p)\<close>.\<close>

fun startswith :: "ustr \<Rightarrow> ustr \<Rightarrow> bool" where
  "startswith s [] = True"
| "startswith [] (p # ps) = False"
| "startswith (c # cs) (p # ps) = (c = p \<and> startswith cs ps)"

text \<open>\<open>tok in t\<close> on strings: \<open>tok\<close> occurs in \<open>t\<close> as a substring.\<close>

fun py_in :: "ustr \<Rightarrow> ustr \<Rightarrow> bool" where
  "py_in tok [] = (tok = [])"
| "py_in tok (c # cs) = (startswith (c # cs) tok \<or> py_in tok cs)"

text \<open>
  \<open>str.lower\<close>, on the cased letters of Basic Latin (A--Z), of the Latin-1 Supplement
  (U+00C0--U+00DE without the multiplication sign U+00D7) and of the Greek capitals
  (U+0391--U+03A9 without the unassigned U+03A2). Every other code point is returned as
  it is, which is what Python does for a code point without a lowercase mapping (digits,
  punctuation, the increment sign U+2206). Not modelled: U+03A3, whose lowercase depends
  on its position in the word, and the cased letters outside these three ranges.
\<close>

definition lower_cp :: "nat \<Rightarrow> nat" where
  "lower_cp c =
     (if (0x41 \<le> c \<and> c \<le> 0x5A)
         \<or> (0xC0 \<le> c \<and> c \<le> 0xDE \<and> c \<noteq> 0xD7)
         \<or> (0x391 \<le> c \<and> c \<le> 0x3A9 \<and> c \<noteq> 0x3A2 \<and> c \<noteq> 0x3A3)
      then c + 32 else c)"

definition py_lower :: "ustr \<Rightarrow> ustr" where
  "py_lower s = map lower_cp s"

text \<open>\<open>str.strip()\<close> removes the code points for which \<open>str.isspace\<close> holds, at both ends.\<close>

definition py_isspace :: "nat \<Rightarrow> bool" where
  "py_isspace c =
     ((0x09 \<le> c \<and> c \<le> 0x0D) \<or> (0x1C \<le> c \<and> c \<le> 0x20) \<or> c = 0x85 \<or> c = 0xA0
      \<or> c = 0x1680 \<or> (0x2000 \<le> c \<and> c \<le> 0x200A) \<or> c = 0x2028 \<or> c = 0x2029
      \<or> c = 0x202F \<or> c = 0x205F \<or> c = 0x3000)"

definition py_strip :: "ustr \<Rightarrow> ustr" where
  "py_strip s = rev (dropWhile py_isspace (rev (dropWhile py_isspace s)))"

text \<open>
  Exceptions of the Python code that the model keeps as values.
\<close>

datatype py_error = IndexError | KeyError | AttributeError

text \<open>
  \<open>s.split('_', 1)[1]\<close>: the text after the first underscore; \<open>IndexError\<close> when
  \<open>s\<close> has no underscore (the split then has one element only).
\<close>

fun split1_idx1 :: "ustr \<Rightarrow> py_error + ustr" where
  "split1_idx1 [] = Inl IndexError"
| "split1_idx1 (c # cs) = (if c = 0x5F then Inr cs else split1_idx1 cs)"

section \<open>Utilities\<close>

text \<open>
  \<^verbatim>\<open>
  def flair_is_delta_from_op(flair: Optional[str]) -> bool:
      if not flair:
          return False
      t = str(flair).strip().lower()
      return ('delta' in t) and ('from op' in t)
  \<close>
\<close>

fun flair_is_delta_from_op :: "ustr option \<Rightarrow> bool" where
  "flair_is_delta_from_op None = False"
| "flair_is_delta_from_op (Some flair) =
     (if flair = [] then False
      else (let t = py_lower (py_strip flair)
            in py_in (cps ''delta'') t \<and> py_in (cps ''from op'') t))"

text \<open>
  \<^verbatim>\<open>
  DELTA_TOKENS: List[str] = [
      '<U+2206>', '\u2206', '!delta', 'delta awarded', 'i award you a delta',
      'i award a delta', "i'm awarding a delta", 'i am awarding a delta'
  ]
  \<close>
  The first entry is the character U+2206 itself in the source (shown here as <U+2206>),
  the second its escape: the list holds the same token twice.
\<close>

definition DELTA_TOKENS :: "ustr list" where
  "DELTA_TOKENS =
     [[0x2206], [0x2206], cps ''!delta'', cps ''delta awarded'', cps ''i award you a delta'',
      cps ''i award a delta'', cps ''i'' @ [0x27] @ cps ''m awarding a delta'',
      cps ''i am awarding a delta'']"

text \<open>
  \<^verbatim>\<open>
  def has_delta(text: Optional[str]) -> bool:
      if not text:
          return False
      t = str(text).lower()
      return any(tok in t for tok in DELTA_TOKENS)
  \<close>
\<close>

fun has_delta :: "ustr option \<Rightarrow> bool" where
  "has_delta None = False"
| "has_delta (Some text) =
     (if text = [] then False
      else (let t = py_lower text in list_ex (\<lambda>tok. py_in tok t) DELTA_TOKENS))"

section \<open>Comments\<close>

text \<open>
  A comment as \<open>build_comments_csv\<close> reads it. Every field is read with
  \<open>getattr(c, name, default)\<close>; \<open>None\<close> stands for an attribute that is missing or
  holds Python's \<open>None\<close>. \<open>c_author\<close> is \<open>Some a\<close> for an author object whose \<open>str\<close>
  is \<open>a\<close> (such an object is truthy whatever its name). \<open>c_permalink\<close> is \<open>Some p\<close>
  for an attribute that the f-string formats as \<open>p\<close>, and \<open>None\<close> for a missing
  attribute, formatted as the empty default.
\<close>

record comment =
  c_id :: "ustr option"
  c_parent_id :: "ustr option"
  c_score :: "int option"
  c_author :: "ustr option"
  c_body :: "ustr option"
  c_permalink :: "ustr option"
  c_created_utc :: "real option"
  c_depth :: "int option"

text \<open>One row of the comments table, its fields in the order of the columns.\<close>

record comment_row =
  comment_id :: "ustr option"
  post_id :: ustr
  parent_comment_id :: "ustr option"
  score :: "int option"
  author :: "ustr option"
  is_op :: bool
  delta_awarded :: bool
  body :: ustr
  permalink :: ustr
  created_utc :: "real option"
  depth :: "int option"

text \<open>
  A row of the submissions table as \<open>pd.read_csv\<close> returns it, with the two columns
  that \<open>build_comments_csv\<close> reads. \<open>srow_author = None\<close> is pandas' missing value
  (an empty cell), \<open>srow_author = Some a\<close> a cell that is read as the text \<open>a\<close>.
  A table in which every author cell is a numeral, which \<open>read_csv\<close> returns as
  numbers, has no counterpart here.
\<close>

record srow =
  srow_id :: ustr
  srow_author :: "ustr option"

text \<open>
  The Reddit client: \<open>reddit sid limit threshold\<close> is \<open>subm.comments.list()\<close> for
  \<open>subm = reddit.submission(id=sid)\<close> after
  \<open>subm.comments.replace_more(limit=limit, threshold=threshold)\<close>.
\<close>

type_synonym reddit = "ustr \<Rightarrow> int \<Rightarrow> int \<Rightarrow> comment list"

text \<open>
  What the loops of \<open>build_comments_csv\<close> change: the list \<open>rows\<close>, the counter
  \<open>total\<close>, and the submissions requested from the client so far, in order.
\<close>

record scan_state =
  rows :: "comment_row list"
  total :: int
  fetched :: "ustr list"

text \<open>\<open>x or ''\<close> for an optional string \<open>x\<close>.\<close>

definition or_empty :: "ustr option \<Rightarrow> ustr" where
  "or_empty x = (case x of None \<Rightarrow> [] | Some s \<Rightarrow> s)"

text \<open>
  \<^verbatim>\<open>
  for c in comment_list:
      c_body = getattr(c, 'body', '') or ''
      c_author = str(getattr(c, 'author', None)) if getattr(c, 'author', None) else None
      if (c_author == op) and has_delta(c_body):
          parent_full = getattr(c, 'parent_id', '') or ''
          if parent_full.startswith('t1_'):  # parent is a comment
              awarded_parent_ids.add(parent_full.split('_', 1)[1])
  \<close>
  \<open>pass1_step\<close> is the body of the loop, \<open>pass1\<close> the loop.
\<close>

definition pass1_step :: "ustr \<Rightarrow> comment \<Rightarrow> ustr set \<Rightarrow> py_error + ustr set" where
  "pass1_step op c awarded_parent_ids =
     (let c_body = or_empty (c_body c);
          c_author = c_author c
      in if c_author = Some op \<and> has_delta (Some c_body) then
           (let parent_full = or_empty (c_parent_id c)
            in if startswith parent_full (cps ''t1_'') then
                 (case split1_idx1 parent_full of
                    Inl e \<Rightarrow> Inl e
                  | Inr p \<Rightarrow> Inr (insert p awarded_parent_ids))
               else Inr awarded_parent_ids)
         else Inr awarded_parent_ids)"

fun pass1 :: "ustr \<Rightarrow> comment list \<Rightarrow> ustr set \<Rightarrow> py_error + ustr set" where
  "pass1 op [] awarded_parent_ids = Inr awarded_parent_ids"
| "pass1 op (c # comment_list) awarded_parent_ids =
     (case pass1_step op c awarded_parent_ids of
        Inl e \<Rightarrow> Inl e
      | Inr awarded' \<Rightarrow> pass1 op comment_list awarded')"

text \<open>
  \<^verbatim>\<open>
  parent_full = getattr(c, 'parent_id', '') or ''
  parent_comment_id = parent_full.split('_', 1)[1] if parent_full.startswith('t1_') else None
  rows.append({
      'comment_id': getattr(c, 'id', None),
      'post_id': sid,
      'parent_comment_id': parent_comment_id,
      'score': getattr(c, 'score', None),
      'author': str(getattr(c, 'author', None)) if getattr(c, 'author', None) else None,
      'is_op': (str(getattr(c, 'author', None)) == op) if getattr(c, 'author', None) else False,
      'delta_awarded': (getattr(c, 'id', None) in awarded_parent_ids),
      'body': getattr(c, 'body', '') or '',
      'permalink': f"https://reddit.com{getattr(c, 'permalink', '')}",
      'created_utc': getattr(c, 'created_utc', None),
      'depth': getattr(c, 'depth', None),
  })
  \<close>
\<close>

definition emit_row :: "ustr \<Rightarrow> ustr \<Rightarrow> ustr set \<Rightarrow> comment \<Rightarrow> py_error + comment_row" where
  "emit_row sid op awarded_parent_ids c =
     (let parent_full = or_empty (c_parent_id c)
      in case (if startswith parent_full (cps ''t1_'')
               then map_sum id Some (split1_idx1 parent_full) else Inr None) of
           Inl e \<Rightarrow> Inl e
         | Inr parent_comment_id' \<Rightarrow>
             Inr \<lparr>comment_id = c_id c,
                  post_id = sid,
                  parent_comment_id = parent_comment_id',
                  score = c_score c,
                  author = c_author c,
                  is_op = (case c_author c of None \<Rightarrow> False | Some a \<Rightarrow> a = op),
                  delta_awarded = (case c_id c of None \<Rightarrow> False
                                   | Some i \<Rightarrow> i \<in> awarded_parent_ids),
                  body = or_empty (c_body c),
                  permalink = cps ''https://reddit.com'' @ or_empty (c_permalink c),
                  created_utc = c_created_utc c,
                  depth = c_depth c\<rparr>)"

text \<open>
  \<^verbatim>\<open>
  for c in comment_list:
      if total >= max_comments:
          break
      ...
      rows.append({...})
      total += 1
  \<close>
\<close>

fun pass2 ::
  "ustr \<Rightarrow> ustr \<Rightarrow> ustr set \<Rightarrow> int \<Rightarrow> comment list \<Rightarrow> scan_state \<Rightarrow> py_error + scan_state"
where
  "pass2 sid op awarded_parent_ids max_comments [] st = Inr st"
| "pass2 sid op awarded_parent_ids max_comments (c # comment_list) st =
     (if total st \<ge> max_comments then Inr st
      else (case emit_row sid op awarded_parent_ids c of
              Inl e \<Rightarrow> Inl e
            | Inr r \<Rightarrow>
                pass2 sid op awarded_parent_ids max_comments comment_list
                  (st\<lparr>rows := rows st @ [r], total := total st + 1\<rparr>)))"

text \<open>
  \<open>op = str(srow['author'])\<close>; the \<open>str\<close> of pandas' missing value is \<open>nan\<close>.
\<close>

definition op_of :: "srow \<Rightarrow> ustr" where
  "op_of s = (case srow_author s of None \<Rightarrow> cps ''nan'' | Some a \<Rightarrow> a)"

text \<open>
  The body of the loop over the submissions, up to the test that ends it: the comments
  are requested, pass 1 runs from the empty set, pass 2 appends the rows.
\<close>

definition scan_submission ::
  "reddit \<Rightarrow> int \<Rightarrow> int \<Rightarrow> int \<Rightarrow> srow \<Rightarrow> scan_state \<Rightarrow> py_error + scan_state"
where
  "scan_submission rd max_comments replace_more_limit replace_more_threshold s st =
     (let sid = srow_id s;
          op = op_of s;
          comment_list = rd sid replace_more_limit replace_more_threshold;
          st1 = st\<lparr>fetched := fetched st @ [sid]\<rparr>
      in case pass1 op comment_list {} of
           Inl e \<Rightarrow> Inl e
         | Inr awarded_parent_ids \<Rightarrow>
             pass2 sid op awarded_parent_ids max_comments comment_list st1)"

text \<open>
  \<^verbatim>\<open>
  for _, srow in subs.iterrows():
      ...
      if total >= max_comments:
          break
  \<close>
\<close>

fun scan_submissions ::
  "reddit \<Rightarrow> int \<Rightarrow> int \<Rightarrow> int \<Rightarrow> srow list \<Rightarrow> scan_state \<Rightarrow> py_error + scan_state"
where
  "scan_submissions rd max_comments replace_more_limit replace_more_threshold [] st = Inr st"
| "scan_submissions rd max_comments replace_more_limit replace_more_threshold (s # subs) st =
     (case scan_submission rd max_comments replace_more_limit replace_more_threshold s st of
        Inl e \<Rightarrow> Inl e
      | Inr st' \<Rightarrow>
          if total st' \<ge> max_comments then Inr st'
          else scan_submissions rd max_comments replace_more_limit replace_more_threshold
                 subs st')"

text \<open>
  \<open>subs[subs['author'].notna() & (subs['author'].str.lower() != '[deleted]')]\<close> keeps
  the rows for which \<open>usable_op\<close> holds, when the accessor \<open>.str\<close> is there.
\<close>

definition usable_op :: "srow \<Rightarrow> bool" where
  "usable_op s =
     (case srow_author s of None \<Rightarrow> False | Some a \<Rightarrow> py_lower a \<noteq> cps ''[deleted]'')"

text \<open>
  \<open>subs['author'].str\<close> raises \<open>AttributeError\<close> unless the column holds strings.
  \<open>read_csv\<close> gives the author column the type of strings when the table has no row
  or when at least one author cell holds text; a column of at least one row whose cells
  are all missing is a column of floats, on which \<open>.str\<close> raises.
\<close>

definition author_is_text :: "srow list \<Rightarrow> bool" where
  "author_is_text submissions_csv =
     (submissions_csv = [] \<or> list_ex (\<lambda>s. srow_author s \<noteq> None) submissions_csv)"

text \<open>\<open>df.head(n)\<close> is \<open>df.iloc[:n]\<close>: a negative \<open>n\<close> drops the last \<open>-n\<close> rows.\<close>

definition df_head :: "int \<Rightarrow> 'a list \<Rightarrow> 'a list" where
  "df_head n xs = (if n < 0 then take (length xs - nat (- n)) xs else take (nat n) xs)"

definition init_state :: scan_state where
  "init_state = \<lparr>rows = [], total = 0, fetched = []\<rparr>"

text \<open>
  \<open>build_comments_csv\<close>, from the table read from \<open>submissions_csv\<close> to the rows of
  the data frame that is written and returned. The filter is the second statement of the
  function: when it raises, no submission has been requested and nothing is written.
\<close>

definition build_comments_csv ::
  "reddit \<Rightarrow> srow list \<Rightarrow> int \<Rightarrow> int \<Rightarrow> int \<Rightarrow> int \<Rightarrow> py_error + scan_state"
where
  "build_comments_csv rd submissions_csv n_submissions max_comments
       replace_more_limit replace_more_threshold =
     (if author_is_text submissions_csv then
        (let subs = filter usable_op submissions_csv;
             subs = df_head n_submissions subs
         in scan_submissions rd max_comments replace_more_limit replace_more_threshold
              subs init_state)
      else Inl AttributeError)"

section \<open>Submissions\<close>

text \<open>
  A submission as \<open>fetch_top_submissions\<close> reads it from the client, one field for each
  \<open>getattr\<close>; \<open>None\<close> stands for an attribute that is missing or holds \<open>None\<close>
  (for \<open>s_permalink\<close>, as for \<open>c_permalink\<close>, for a missing attribute).
\<close>

record submission =
  s_id :: "ustr option"
  s_title :: "ustr option"
  s_author :: "ustr option"
  s_permalink :: "ustr option"
  s_url :: "ustr option"
  s_created_utc :: "real option"
  s_score :: "int option"
  s_num_comments :: "int option"
  s_upvote_ratio :: "real option"
  s_link_flair_text :: "ustr option"
  s_total_awards_received :: "int option"

text \<open>
  A data frame: the names of its columns, in order, and its rows, each a dictionary from
  column names to cells.
\<close>

datatype cell = CNone | CStr ustr | CInt int | CReal real | CBool bool

record dataframe =
  columns :: "string list"
  frame_rows :: "(string \<times> cell) list list"

definition opt_cell :: "('a \<Rightarrow> cell) \<Rightarrow> 'a option \<Rightarrow> cell" where
  "opt_cell f x = (case x of None \<Rightarrow> CNone | Some v \<Rightarrow> f v)"

text \<open>
  \<^verbatim>\<open>
  rows.append({
      'id': getattr(s, 'id', None),
      'title': getattr(s, 'title', '') or '',
      'author': str(getattr(s, 'author', None)) if getattr(s, 'author', None) else None,
      'permalink': f"https://reddit.com{getattr(s, 'permalink', '')}",
      'url': getattr(s, 'url', None),
      'created_utc': getattr(s, 'created_utc', None),
      'score': getattr(s, 'score', None),
      'num_comments': getattr(s, 'num_comments', None),
      'upvote_ratio': getattr(s, 'upvote_ratio', None),
      'link_flair_text': getattr(s, 'link_flair_text', None),
      'total_awards_received': getattr(s, 'total_awards_received', None),
  })
  \<close>
\<close>

definition submission_dict :: "submission \<Rightarrow> (string \<times> cell) list" where
  "submission_dict s =
     [(''id'', opt_cell CStr (s_id s)),
      (''title'', CStr (or_empty (s_title s))),
      (''author'', opt_cell CStr (s_author s)),
      (''permalink'', CStr (cps ''https://reddit.com'' @ or_empty (s_permalink s))),
      (''url'', opt_cell CStr (s_url s)),
      (''created_utc'', opt_cell CReal (s_created_utc s)),
      (''score'', opt_cell CInt (s_score s)),
      (''num_comments'', opt_cell CInt (s_num_comments s)),
      (''upvote_ratio'', opt_cell CReal (s_upvote_ratio s)),
      (''link_flair_text'', opt_cell CStr (s_link_flair_text s)),
      (''total_awards_received'', opt_cell CInt (s_total_awards_received s))]"

text \<open>
  \<open>pd.DataFrame(rows)\<close> for a list of dictionaries that all have the same keys: the
  columns are the keys of the first dictionary; an empty list gives a frame without
  columns.
\<close>

definition DataFrame :: "(string \<times> cell) list list \<Rightarrow> dataframe" where
  "DataFrame rs =
     \<lparr>columns = (case rs of [] \<Rightarrow> [] | r # _ \<Rightarrow> map fst r), frame_rows = rs\<rparr>"

text \<open>
  \<open>fetch_top_submissions\<close>; \<open>items\<close> is what \<open>sub.top(time_filter=..., limit=...)\<close>
  yields.
\<close>

definition fetch_top_submissions :: "submission list \<Rightarrow> dataframe" where
  "fetch_top_submissions items = DataFrame (map submission_dict items)"

text \<open>\<open>df.empty\<close>: one of the two axes has length 0.\<close>

definition df_empty :: "dataframe \<Rightarrow> bool" where
  "df_empty df = (columns df = [] \<or> frame_rows df = [])"

text \<open>\<open>df[name]\<close>: the cells of a column; \<open>KeyError\<close> when there is no such column.\<close>

definition df_col :: "string \<Rightarrow> dataframe \<Rightarrow> py_error + cell list" where
  "df_col name df =
     (if name \<in> set (columns df)
      then Inr (map (\<lambda>r. case map_of r name of None \<Rightarrow> CNone | Some v \<Rightarrow> v) (frame_rows df))
      else Inl KeyError)"

text \<open>
  \<open>df[name] = values\<close>, with one value for each row: an existing column is replaced, a
  new one comes last.
\<close>

definition df_set_col :: "string \<Rightarrow> cell list \<Rightarrow> dataframe \<Rightarrow> dataframe" where
  "df_set_col name vs df =
     \<lparr>columns = (if name \<in> set (columns df) then columns df else columns df @ [name]),
      frame_rows =
        map (\<lambda>(r, v). if name \<in> fst ` set r then map (\<lambda>(k, x). (k, if k = name then v else x)) r
                       else r @ [(name, v)])
            (zip (frame_rows df) vs)\<rparr>"

text \<open>\<open>df[df[name].notna()]\<close>; \<open>KeyError\<close> when there is no such column.\<close>

definition df_notna :: "string \<Rightarrow> dataframe \<Rightarrow> py_error + dataframe" where
  "df_notna name df =
     (if name \<in> set (columns df)
      then Inr (df\<lparr>frame_rows :=
                   filter (\<lambda>r. case map_of r name of None \<Rightarrow> False | Some v \<Rightarrow> v \<noteq> CNone)
                     (frame_rows df)\<rparr>)
      else Inl KeyError)"

text \<open>\<open>df[cols]\<close>: the listed columns in the listed order; \<open>KeyError\<close> when one is missing.\<close>

definition df_select :: "string list \<Rightarrow> dataframe \<Rightarrow> py_error + dataframe" where
  "df_select cs df =
     (if set cs \<subseteq> set (columns df)
      then Inr \<lparr>columns = cs,
               frame_rows =
                 map (\<lambda>r. map (\<lambda>k. (k, case map_of r k of None \<Rightarrow> CNone | Some v \<Rightarrow> v)) cs)
                   (frame_rows df)\<rparr>
      else Inl KeyError)"

text \<open>The value that \<open>Series.apply\<close> hands to \<open>flair_is_delta_from_op\<close> for a cell.\<close>

definition cell_str :: "cell \<Rightarrow> ustr option" where
  "cell_str v = (case v of CStr t \<Rightarrow> Some t | _ \<Rightarrow> None)"

text \<open>
  \<^verbatim>\<open>
  cols = [
      'id','title','author','permalink','url','created_utc','score',
      'num_comments','upvote_ratio','link_flair_text','has_delta_from_op',
      'total_awards_received'
  ]
  \<close>
\<close>

definition cols :: "string list" where
  "cols =
     [''id'', ''title'', ''author'', ''permalink'', ''url'', ''created_utc'', ''score'',
      ''num_comments'', ''upvote_ratio'', ''link_flair_text'', ''has_delta_from_op'',
      ''total_awards_received'']"

text \<open>
  \<^verbatim>\<open>
  df = fetch_top_submissions(reddit, subreddit_name, time_filter, limit)
  if df.empty:
      Path(outfile).parent.mkdir(parents=True, exist_ok=True)
      df.to_csv(outfile, index=False)
      print(f'Wrote 0 rows to {outfile}')
      return df

  df['has_delta_from_op'] = df['link_flair_text'].apply(flair_is_delta_from_op)
  # keep only posts with a real OP
  df = df[df['author'].notna()]
  cols = [...]
  out = df[cols].copy()

  Path(outfile).parent.mkdir(parents=True, exist_ok=True)
  out.to_csv(outfile, index=False)
  print(f'Wrote {len(out)} rows to {outfile}')
  return out
  \<close>
  The result is the frame handed to \<open>to_csv\<close>, which writes its columns as the header
  line and one line for each row.
\<close>

definition build_submissions_csv :: "submission list \<Rightarrow> py_error + dataframe" where
  "build_submissions_csv items =
     (let df = fetch_top_submissions items
      in if df_empty df then Inr df
         else (case df_col ''link_flair_text'' df of
                 Inl e \<Rightarrow> Inl e
               | Inr flairs \<Rightarrow>
                   (let df1 = df_set_col ''has_delta_from_op''
                                (map (\<lambda>v. CBool (flair_is_delta_from_op (cell_str v))) flairs) df
                    in case df_notna ''author'' df1 of
                         Inl e \<Rightarrow> Inl e
                       | Inr df2 \<Rightarrow> df_select cols df2)))"

section \<open>Notions used in the statements\<close>

text \<open>
  The identifiers that one comment adds to the awarded set in pass 1: the text after
  \<open>t1_\<close> of its parent reference when the comment is by \<open>op\<close> and has a marker,
  nothing otherwise. Lemma \<open>pass1_step_eq\<close> shows that this is what \<open>pass1_step\<close>
  adds, lemma \<open>pass1_eq\<close> that pass 1 returns the union over the sequence.
\<close>

definition award_of :: "ustr \<Rightarrow> comment \<Rightarrow> ustr set" where
  "award_of op c =
     (if c_author c = Some op \<and> has_delta (c_body c)
         \<and> startswith (or_empty (c_parent_id c)) (cps ''t1_'')
      then {drop 3 (or_empty (c_parent_id c))} else {})"

text \<open>
  The dictionary that pass 2 appends for a comment, given the awarded set: the value that
  \<open>emit_row\<close> returns (lemma \<open>emit_row_eq\<close>).
\<close>

definition row_of :: "ustr \<Rightarrow> ustr \<Rightarrow> ustr set \<Rightarrow> comment \<Rightarrow> comment_row" where
  "row_of sid op awarded_parent_ids c =
     \<lparr>comment_id = c_id c,
      post_id = sid,
      parent_comment_id =
        (if startswith (or_empty (c_parent_id c)) (cps ''t1_'')
         then Some (drop 3 (or_empty (c_parent_id c))) else None),
      score = c_score c,
      author = c_author c,
      is_op = (c_author c = Some op),
      delta_awarded = (case c_id c of None \<Rightarrow> False | Some i \<Rightarrow> i \<in> awarded_parent_ids),
      body = or_empty (c_body c),
      permalink = cps ''https://reddit.com'' @ or_empty (c_permalink c),
      created_utc = c_created_utc c,
      depth = c_depth c\<rparr>"

text \<open>
  The rows of one submission when no budget cuts them: both passes over its comments
  (lemma \<open>scan_submission_eq\<close>).
\<close>

definition thread_rows :: "reddit \<Rightarrow> int \<Rightarrow> int \<Rightarrow> srow \<Rightarrow> comment_row list" where
  "thread_rows rd rl rt s =
     (let cs = rd (srow_id s) rl rt
      in map (row_of (srow_id s) (op_of s) (\<Union>c\<in>set cs. award_of (op_of s) c)) cs)"

text \<open>
  The number of submissions requested from the client, for a remaining budget \<open>r\<close> and
  the numbers of comments of the submissions still to scan (lemma
  \<open>scan_submissions_eq\<close>).
\<close>

fun n_scanned :: "int \<Rightarrow> nat list \<Rightarrow> nat" where
  "n_scanned r [] = 0"
| "n_scanned r (n # ns) = Suc (if r \<le> int n then 0 else n_scanned (r - int n) ns)"

text \<open>
  The comments that the builder meets, each with its submission, in the order of the
  scan.
\<close>

definition scanned_comments :: "reddit \<Rightarrow> int \<Rightarrow> int \<Rightarrow> srow list \<Rightarrow> (srow \<times> comment) list" where
  "scanned_comments rd rl rt ss = concat (map (\<lambda>s. map (Pair s) (rd (srow_id s) rl rt)) ss)"

text \<open>
  The specification's words. A parent reference denotes a comment when it is the comment
  prefix \<open>t1_\<close> followed by that comment's identifier. A comment \<open>C\<close> has
  \<open>delta_awarded\<close> when some comment \<open>D\<close> of the same flattened sequence has a parent
  reference that denotes \<open>C\<close>, is by the thread's OP, and has a body with a marker.
\<close>

definition parent_denotes :: "comment \<Rightarrow> comment \<Rightarrow> bool" where
  "parent_denotes D C =
     (case c_id C of None \<Rightarrow> False | Some i \<Rightarrow> c_parent_id D = Some (cps ''t1_'' @ i))"

definition spec_delta_awarded :: "ustr \<Rightarrow> comment list \<Rightarrow> comment \<Rightarrow> bool" where
  "spec_delta_awarded op cs C =
     list_ex (\<lambda>D. parent_denotes D C \<and> c_author D = Some op \<and> has_delta (c_body D)) cs"

section \<open>A small thread\<close>

text \<open>
  The first scenario of the specification: a submission \<open>p1\<close> by \<open>alice\<close> with a
  top-level comment by \<open>bob\<close> and a reply by \<open>alice\<close> that awards a delta; a
  submission whose author is the removed-account sentinel; and one whose author cell is
  empty.
\<close>

definition example_comment :: comment where
  "example_comment =
     \<lparr>c_id = Some (cps ''c1''), c_parent_id = Some (cps ''t3_p1''), c_score = Some 1,
      c_author = Some (cps ''bob''), c_body = Some (cps ''I disagree''),
      c_permalink = Some (cps ''/r/changemyview/comments/p1/x/c1/''),
      c_created_utc = Some 0, c_depth = Some 0\<rparr>"

definition example_reply :: comment where
  "example_reply =
     \<lparr>c_id = Some (cps ''c2''), c_parent_id = Some (cps ''t1_c1''), c_score = Some 1,
      c_author = Some (cps ''alice''), c_body = Some ([0x2206] @ cps '' you changed my mind''),
      c_permalink = Some (cps ''/r/changemyview/comments/p1/x/c2/''),
      c_created_utc = Some 0, c_depth = Some 1\<rparr>"

definition example_reddit :: reddit where
  "example_reddit sid rl rt = (if sid = cps ''p1'' then [example_comment, example_reply] else [])"

definition example_srow :: srow where
  "example_srow = \<lparr>srow_id = cps ''p1'', srow_author = Some (cps ''alice'')\<rparr>"

definition example_deleted_srow :: srow where
  "example_deleted_srow = \<lparr>srow_id = cps ''p0'', srow_author = Some (cps ''[deleted]'')\<rparr>"

definition example_missing_srow :: srow where
  "example_missing_srow = \<lparr>srow_id = cps ''p0'', srow_author = None\<rparr>"

text \<open>
  Variants of the small thread: the reply under a name that differs from the OP's in
  letter case only; the reply as a direct answer to the submission; a second award by
  the OP to the same comment; the reply with a parent reference that is the bare prefix
  \<open>t1_\<close>, and with one that has a second underscore; the first comment with its
  author removed, and a client that returns it; and a client that returns the first
  comment rewritten as an award by the OP.
\<close>

definition example_other_case :: comment where
  "example_other_case = example_reply\<lparr>c_author := Some (cps ''Alice'')\<rparr>"

definition example_root_reply :: comment where
  "example_root_reply = example_reply\<lparr>c_parent_id := Some (cps ''t3_p1'')\<rparr>"

definition example_second_reply :: comment where
  "example_second_reply =
     example_reply\<lparr>c_id := Some (cps ''c3''), c_body := Some (cps ''!delta'')\<rparr>"

definition example_bare_prefix :: comment where
  "example_bare_prefix = example_reply\<lparr>c_parent_id := Some (cps ''t1_'')\<rparr>"

definition example_two_underscores :: comment where
  "example_two_underscores = example_reply\<lparr>c_parent_id := Some (cps ''t1_a_b'')\<rparr>"

definition example_no_author :: comment where
  "example_no_author = example_comment\<lparr>c_author := None\<rparr>"

definition example_reddit_no_author :: reddit where
  "example_reddit_no_author sid rl rt = [example_no_author, example_reply]"

definition example_reddit_edited :: reddit where
  "example_reddit_edited sid rl rt =
     (if sid = cps ''p1''
      then [example_comment\<lparr>c_body := Some (cps ''!delta''), c_author := Some (cps ''alice'')\<rparr>,
            example_reply]
      else [])"

section \<open>The two passes never raise\<close>

lemma startswith_append: "startswith s p \<longleftrightarrow> (\<exists>r. s = p @ r)"
  by (induction s p rule: startswith.induct) auto

lemma split1_t1: "startswith s (cps ''t1_'') \<Longrightarrow> split1_idx1 s = Inr (drop 3 s)"
  by (auto simp: startswith_append cps_def)

lemma has_delta_or_empty: "has_delta (Some (or_empty b)) = has_delta b"
  by (cases b) (simp_all add: or_empty_def)

lemma pass1_step_eq: "pass1_step op c A = Inr (A \<union> award_of op c)"
  by (simp add: pass1_step_def award_of_def Let_def has_delta_or_empty split1_t1
        del: has_delta.simps)

lemma pass1_eq: "pass1 op cs A = Inr (A \<union> (\<Union>c\<in>set cs. award_of op c))"
  by (induction cs arbitrary: A) (auto simp: pass1_step_eq)

lemma emit_row_eq: "emit_row sid op A c = Inr (row_of sid op A c)"
  by (auto simp: emit_row_def row_of_def Let_def split1_t1 split: option.splits)

lemma pass2_eq:
  "pass2 sid op A B cs st =
     Inr (st\<lparr>rows := rows st @ map (row_of sid op A) (take (nat (B - total st)) cs),
             total := total st + int (min (length cs) (nat (B - total st)))\<rparr>)"
proof (induction cs arbitrary: st)
  case Nil
  then show ?case by simp
next
  case (Cons c cs)
  show ?case
  proof (cases "total st \<ge> B")
    case True
    then show ?thesis by simp
  next
    case False
    then have m: "nat (B - total st) = Suc (nat (B - (total st + 1)))"
      by arith
    with False show ?thesis
      by (simp add: emit_row_eq Cons.IH)
  qed
qed

lemma length_thread_rows: "length (thread_rows rd rl rt s) = length (rd (srow_id s) rl rt)"
  by (simp add: thread_rows_def Let_def)

lemma scan_submission_eq:
  "scan_submission rd B rl rt s st =
     Inr (st\<lparr>rows := rows st @ take (nat (B - total st)) (thread_rows rd rl rt s),
             total := total st
               + int (min (length (thread_rows rd rl rt s)) (nat (B - total st))),
             fetched := fetched st @ [srow_id s]\<rparr>)"
  by (simp add: scan_submission_def Let_def pass1_eq pass2_eq thread_rows_def take_map)

lemma scan_submissions_eq:
  "\<exists>st'. scan_submissions rd B rl rt ss st = Inr st'
     \<and> rows st' = rows st @ take (nat (B - total st)) (concat (map (thread_rows rd rl rt) ss))
     \<and> total st' = total st
          + int (min (length (concat (map (thread_rows rd rl rt) ss))) (nat (B - total st)))
     \<and> fetched st' = fetched st
          @ map srow_id (take (n_scanned (B - total st)
                                 (map (\<lambda>s. length (thread_rows rd rl rt s)) ss)) ss)"
proof (induction ss arbitrary: st)
  case Nil
  then show ?case by simp
next
  case (Cons s ss)
  let ?T = "thread_rows rd rl rt s"
  let ?st1 = "st\<lparr>rows := rows st @ take (nat (B - total st)) ?T,
             total := total st + int (min (length ?T) (nat (B - total st))),
             fetched := fetched st @ [srow_id s]\<rparr>"
  show ?case
  proof (cases "total ?st1 \<ge> B")
    case True
    then have le: "nat (B - total st) \<le> length ?T" by (simp; arith)
    then have "B - total st \<le> int (length ?T)" by arith
    with True le show ?thesis
      by (simp add: scan_submission_eq min_absorb2)
  next
    case False
    then have gt: "length ?T < nat (B - total st)" by (simp; arith)
    then have r: "\<not> B - total st \<le> int (length ?T)" by arith
    have n: "nat (B - (total st + int (length ?T))) = nat (B - total st) - length ?T"
      by arith
    from Cons.IH[of ?st1] obtain st' where h:
      "scan_submissions rd B rl rt ss ?st1 = Inr st'
       \<and> rows st' = rows ?st1 @ take (nat (B - total ?st1)) (concat (map (thread_rows rd rl rt) ss))
       \<and> total st' = total ?st1
          + int (min (length (concat (map (thread_rows rd rl rt) ss))) (nat (B - total ?st1)))
       \<and> fetched st' = fetched ?st1
          @ map srow_id (take (n_scanned (B - total ?st1)
                                 (map (\<lambda>s. length (thread_rows rd rl rt s)) ss)) ss)" ..
    with False gt r n show ?thesis
      by (simp add: scan_submission_eq min_absorb1 diff_diff_eq; arith)
  qed
qed

lemma build_comments_csv_error:
  "\<not> author_is_text subs \<Longrightarrow> build_comments_csv rd subs n B rl rt = Inl AttributeError"
  by (simp add: build_comments_csv_def)

lemma build_comments_csv_eq:
  "author_is_text subs \<Longrightarrow>
   \<exists>st. build_comments_csv rd subs n B rl rt = Inr st
     \<and> rows st = take (nat B) (concat (map (thread_rows rd rl rt) (df_head n (filter usable_op subs))))
     \<and> total st = int (length (rows st))
     \<and> fetched st = map srow_id
         (take (n_scanned B (map (\<lambda>s. length (thread_rows rd rl rt s))
                              (df_head n (filter usable_op subs))))
            (df_head n (filter usable_op subs)))"
  using scan_submissions_eq[of rd B rl rt "df_head n (filter usable_op subs)" init_state]
  by (auto simp: build_comments_csv_def init_state_def Let_def)

section \<open>The awarded set and the specification's predicate\<close>

lemma length_t1: "length (cps ''t1_'') = 3"
  by (simp add: cps_def)

lemma award_of_iff:
  "i \<in> award_of op D \<longleftrightarrow>
     c_parent_id D = Some (cps ''t1_'' @ i) \<and> c_author D = Some op \<and> has_delta (c_body D)"
proof -
  have t1_ne: "cps ''t1_'' @ i \<noteq> []" by (simp add: cps_def)
  have "startswith (or_empty (c_parent_id D)) (cps ''t1_'') \<and> i = drop 3 (or_empty (c_parent_id D))
        \<longleftrightarrow> c_parent_id D = Some (cps ''t1_'' @ i)"
    using t1_ne by (cases "c_parent_id D") (auto simp: or_empty_def startswith_append length_t1)
  then show ?thesis
    by (auto simp: award_of_def)
qed

lemma delta_link:
  "(case c_id C of None \<Rightarrow> False | Some i \<Rightarrow> i \<in> (\<Union>c\<in>set cs. award_of op c))
     = spec_delta_awarded op cs C"
  by (cases "c_id C")
     (auto simp: spec_delta_awarded_def parent_denotes_def list_ex_iff award_of_iff)

lemma delta_awarded_thread_rows:
  "map delta_awarded (thread_rows rd rl rt s)
     = map (spec_delta_awarded (op_of s) (rd (srow_id s) rl rt)) (rd (srow_id s) rl rt)"
  by (simp add: thread_rows_def Let_def row_of_def delta_link)

text \<open>
  C1. A run of the comments builder that gets past the filter of the table returns
  normally, and its rows, read in order, are the rows of the scanned (submission,
  comment) pairs up to the budget: the row of the pair \<open>(s, C)\<close> carries the
  identifiers of \<open>s\<close> and \<open>C\<close>, and its \<open>delta_awarded\<close> is true exactly when some
  comment \<open>D\<close> of the flattened sequence of \<open>s\<close> has a parent reference denoting
  \<open>C\<close>'s identifier, is by the OP of \<open>s\<close>, and has a body with a marker. The only
  other run is the one that raises \<open>AttributeError\<close> in the filter, on a table with rows
  and no author text: it processes no thread and emits no record.
\<close>

theorem delta_awarded_iff:
  "if author_is_text subs
   then (\<exists>st. build_comments_csv rd subs n B rl rt = Inr st
     \<and> map delta_awarded (rows st)
         = take (nat B)
             (map (\<lambda>(s, C). spec_delta_awarded (op_of s) (rd (srow_id s) rl rt) C)
                (scanned_comments rd rl rt (df_head n (filter usable_op subs))))
     \<and> map (\<lambda>r. (post_id r, comment_id r)) (rows st)
         = take (nat B)
             (map (\<lambda>(s, C). (srow_id s, c_id C))
                (scanned_comments rd rl rt (df_head n (filter usable_op subs)))))
   else build_comments_csv rd subs n B rl rt = Inl AttributeError"
proof (cases "author_is_text subs")
  case False
  then show ?thesis by (simp add: build_comments_csv_error)
next
  case True
  let ?ss = "df_head n (filter usable_op subs)"
  obtain st where st: "build_comments_csv rd subs n B rl rt = Inr st"
    "rows st = take (nat B) (concat (map (thread_rows rd rl rt) ?ss))"
    using build_comments_csv_eq[OF True, of rd n B rl rt] by (elim exE conjE)
  have d: "map delta_awarded (concat (map (thread_rows rd rl rt) ss))
        = map (\<lambda>(s, C). spec_delta_awarded (op_of s) (rd (srow_id s) rl rt) C)
            (scanned_comments rd rl rt ss)" for ss
    by (induction ss) (simp_all add: scanned_comments_def delta_awarded_thread_rows comp_def)
  have i: "map (\<lambda>r. (post_id r, comment_id r)) (concat (map (thread_rows rd rl rt) ss))
        = map (\<lambda>(s, C). (srow_id s, c_id C)) (scanned_comments rd rl rt ss)" for ss
    by (induction ss)
       (simp_all add: scanned_comments_def thread_rows_def Let_def row_of_def comp_def)
  have "map delta_awarded (rows st)
        = take (nat B) (map delta_awarded (concat (map (thread_rows rd rl rt) ?ss)))"
    using st(2) by (simp add: take_map)
  then have D: "map delta_awarded (rows st)
        = take (nat B)
            (map (\<lambda>(s, C). spec_delta_awarded (op_of s) (rd (srow_id s) rl rt) C)
               (scanned_comments rd rl rt ?ss))"
    by (simp only: d)
  have "map (\<lambda>r. (post_id r, comment_id r)) (rows st)
        = take (nat B)
            (map (\<lambda>r. (post_id r, comment_id r)) (concat (map (thread_rows rd rl rt) ?ss)))"
    using st(2) by (simp add: take_map)
  then have I: "map (\<lambda>r. (post_id r, comment_id r)) (rows st)
        = take (nat B)
            (map (\<lambda>(s, C). (srow_id s, c_id C)) (scanned_comments rd rl rt ?ss))"
    by (simp only: i)
  from st(1) D I have "\<exists>st. build_comments_csv rd subs n B rl rt = Inr st
     \<and> map delta_awarded (rows st)
         = take (nat B)
             (map (\<lambda>(s, C). spec_delta_awarded (op_of s) (rd (srow_id s) rl rt) C)
                (scanned_comments rd rl rt ?ss))
     \<and> map (\<lambda>r. (post_id r, comment_id r)) (rows st)
         = take (nat B)
             (map (\<lambda>(s, C). (srow_id s, c_id C)) (scanned_comments rd rl rt ?ss))"
    by (intro exI[of _ st] conjI)
  with True show ?thesis by (simp only: if_True)
qed

section \<open>The scan of the submissions\<close>

lemma n_scanned_le: "n_scanned r ns \<le> length ns"
  by (induction ns arbitrary: r) auto

lemma n_scanned_lt: "1 \<le> r \<Longrightarrow> i < n_scanned r ns \<Longrightarrow> int (sum_list (take i ns)) < r"
proof (induction ns arbitrary: r i)
  case Nil
  then show ?case by simp
next
  case (Cons n ns)
  show ?case
  proof (cases i)
    case 0
    with Cons.prems show ?thesis by simp
  next
    case (Suc k)
    with Cons.prems have big: "\<not> r \<le> int n" and k: "k < n_scanned (r - int n) ns"
      by (auto split: if_splits)
    from big have "1 \<le> r - int n" by arith
    from Cons.IH[OF this k] Suc show ?thesis by simp
  qed
qed

lemma length_scanned_comments:
  "length (scanned_comments rd rl rt ss) = sum_list (map (\<lambda>s. length (thread_rows rd rl rt s)) ss)"
  by (induction ss) (simp_all add: scanned_comments_def length_thread_rows)

lemma scan_submissions_post_ids:
  "post_id ` set (rows st) \<subseteq> set (fetched st)
   \<Longrightarrow> scan_submissions rd B rl rt ss st = Inr st'
   \<Longrightarrow> post_id ` set (rows st') \<subseteq> set (fetched st')"
proof (induction ss arbitrary: st)
  case Nil
  then show ?case by simp
next
  case (Cons s ss)
  let ?st1 = "st\<lparr>rows := rows st @ take (nat (B - total st)) (thread_rows rd rl rt s),
             total := total st
               + int (min (length (thread_rows rd rl rt s)) (nat (B - total st))),
             fetched := fetched st @ [srow_id s]\<rparr>"
  have "post_id ` set (thread_rows rd rl rt s) \<subseteq> {srow_id s}"
    by (auto simp: thread_rows_def Let_def row_of_def)
  then have "post_id ` set (take (nat (B - total st)) (thread_rows rd rl rt s)) \<subseteq> {srow_id s}"
    using set_take_subset[of "nat (B - total st)" "thread_rows rd rl rt s"] by blast
  with Cons.prems(1) have inv: "post_id ` set (rows ?st1) \<subseteq> set (fetched ?st1)"
    by auto
  have step: "scan_submissions rd B rl rt (s # ss) st
      = (if total ?st1 \<ge> B then Inr ?st1 else scan_submissions rd B rl rt ss ?st1)"
    by (simp only: scan_submissions.simps scan_submission_eq sum.case)
  show ?case
  proof (cases "total ?st1 \<ge> B")
    case True
    with step have "scan_submissions rd B rl rt (s # ss) st = Inr ?st1"
      by (simp only: if_True)
    with Cons.prems(2) have "st' = ?st1"
      by (simp only: sum.inject)
    with inv show ?thesis by (simp only:)
  next
    case False
    with step have "scan_submissions rd B rl rt (s # ss) st = scan_submissions rd B rl rt ss ?st1"
      by (simp only: if_False)
    with Cons.prems(2) have "scan_submissions rd B rl rt ss ?st1 = Inr st'"
      by (simp only:)
    from Cons.IH[OF inv this] show ?thesis .
  qed
qed

lemma not_usable_op:
  "srow_author s = None \<or> srow_author s = Some (cps ''[deleted]'') \<Longrightarrow> \<not> usable_op s"
  by (auto simp: usable_op_def py_lower_def lower_cp_def cps_def)

lemma set_df_head: "set (df_head n xs) \<subseteq> set xs"
  by (auto simp: df_head_def dest: in_set_takeD)

section \<open>Pass 1 on single comments\<close>

lemma pass1_append:
  "pass1 op (xs @ ys) A = (case pass1 op xs A of Inl e \<Rightarrow> Inl e | Inr A' \<Rightarrow> pass1 op ys A')"
  by (induction xs arbitrary: A) (simp_all add: pass1_step_eq)

lemma pass1_skip:
  "award_of op c = {} \<Longrightarrow> pass1 op (xs @ c # ys) A = pass1 op (xs @ ys) A"
  by (simp add: pass1_append pass1_eq pass1_step_eq)

lemma award_of_other_author: "c_author c \<noteq> Some op \<Longrightarrow> award_of op c = {}"
  by (simp add: award_of_def)

lemma award_of_degenerate:
  "c_author c = None \<or> c_body c = None \<or> \<not> startswith (or_empty (c_parent_id c)) (cps ''t1_'')
   \<Longrightarrow> award_of op c = {}"
  by (auto simp: award_of_def)

lemma t3_not_t1: "\<not> startswith (or_empty (Some (cps ''t3_'' @ p))) (cps ''t1_'')"
  by (simp add: or_empty_def cps_def)

lemma award_of_prefixed:
  "c_author h = Some op \<Longrightarrow> has_delta (c_body h) \<Longrightarrow> c_parent_id h = Some (cps ''t1_'' @ q)
   \<Longrightarrow> award_of op h = {q}"
  by (simp add: award_of_def or_empty_def startswith_append length_t1)

lemma award_of_same_parent:
  "c_author f = Some op \<Longrightarrow> has_delta (c_body f) \<Longrightarrow> c_parent_id g = c_parent_id f
   \<Longrightarrow> award_of op g \<subseteq> award_of op f"
  by (simp add: award_of_def)

section \<open>The rows of one submission\<close>

lemma scan_submission_rows:
  assumes "scan_submission rd B rl rt s st = Inr st'"
  shows "length (rows st') = length (rows st)
           + min (length (rd (srow_id s) rl rt)) (nat (B - total st))"
    and "i < length (rd (srow_id s) rl rt) \<Longrightarrow> int i < B - total st \<Longrightarrow>
         rows st' ! (length (rows st) + i)
           = row_of (srow_id s) (op_of s)
               (\<Union>c\<in>set (rd (srow_id s) rl rt). award_of (op_of s) c)
               (rd (srow_id s) rl rt ! i)"
proof -
  let ?cs = "rd (srow_id s) rl rt"
  from assms have r: "rows st' = rows st @ take (nat (B - total st)) (thread_rows rd rl rt s)"
    by (auto simp: scan_submission_eq)
  then show "length (rows st') = length (rows st) + min (length ?cs) (nat (B - total st))"
    by (simp add: length_thread_rows)
  assume i: "i < length ?cs" "int i < B - total st"
  then have "i < nat (B - total st)" by arith
  with i(1) r show "rows st' ! (length (rows st) + i)
           = row_of (srow_id s) (op_of s) (\<Union>c\<in>set ?cs. award_of (op_of s) c) (?cs ! i)"
    by (simp add: nth_append thread_rows_def Let_def)
qed

lemma scan_submission_delta:
  assumes "scan_submission rd B rl rt s st = Inr st'"
      and "i < length (rd (srow_id s) rl rt)" and "int i < B - total st"
  shows "delta_awarded (rows st' ! (length (rows st) + i))
           = spec_delta_awarded (op_of s) (rd (srow_id s) rl rt) (rd (srow_id s) rl rt ! i)"
  by (simp add: scan_submission_rows(2)[OF assms] row_of_def delta_link)

lemma parent_denotes_update:
  "parent_denotes (D\<lparr>c_body := b, c_author := a\<rparr>) C = parent_denotes D C"
  "parent_denotes D (C\<lparr>c_body := b, c_author := a\<rparr>) = parent_denotes D C"
  by (simp_all add: parent_denotes_def split: option.splits)

lemma spec_delta_awarded_others:
  assumes "i < length cs" and "\<not> parent_denotes (cs ! i) C"
  shows "spec_delta_awarded op cs C = spec_delta_awarded op (take i cs @ drop (Suc i) cs) C"
proof -
  from assms(1) have "cs = take i cs @ cs ! i # drop (Suc i) cs"
    by (rule id_take_nth_drop)
  then have "spec_delta_awarded op cs C
      = spec_delta_awarded op (take i cs @ cs ! i # drop (Suc i) cs) C"
    by simp
  also have "\<dots> = spec_delta_awarded op (take i cs @ drop (Suc i) cs) C"
    using assms(2) by (simp add: spec_delta_awarded_def)
  finally show ?thesis .
qed

section \<open>Facts about the small thread\<close>

lemma has_delta_example_reply: "has_delta (c_body example_reply)"
  by (simp add: example_reply_def cps_def py_lower_def lower_cp_def DELTA_TOKENS_def)

lemma example_srow_fields:
  "srow_id example_srow = cps ''p1''" "op_of example_srow = cps ''alice''"
  by (simp_all add: example_srow_def op_of_def)


section \<open>The columns of the submissions table\<close>

text \<open>
  When the listing yields at least one item, \<open>build_submissions_csv\<close> returns normally
  and the frame it writes has the columns \<open>cols\<close>, in that order, also when every row
  is dropped for want of an author.
\<close>

lemma columns_fetch_top_submissions:
  "columns (fetch_top_submissions (x # xs))
     = [''id'', ''title'', ''author'', ''permalink'', ''url'', ''created_utc'', ''score'',
        ''num_comments'', ''upvote_ratio'', ''link_flair_text'', ''total_awards_received'']"
  by (simp add: fetch_top_submissions_def DataFrame_def submission_dict_def)

lemma frame_rows_fetch_top_submissions:
  "frame_rows (fetch_top_submissions (x # xs)) \<noteq> []"
  by (simp add: fetch_top_submissions_def DataFrame_def)

lemma build_submissions_csv_columns:
  "items \<noteq> [] \<Longrightarrow> \<exists>df. build_submissions_csv items = Inr df \<and> columns df = cols"
proof (cases items)
  case Nil
  assume "items \<noteq> []"
  with Nil show ?thesis by simp
next
  case (Cons x xs)
  let ?df = "fetch_top_submissions (x # xs)"
  have ne: "\<not> df_empty ?df"
    by (simp add: df_empty_def columns_fetch_top_submissions frame_rows_fetch_top_submissions)
  obtain flairs where fl: "df_col ''link_flair_text'' ?df = Inr flairs"
    by (simp add: df_col_def columns_fetch_top_submissions)
  let ?df1 = "df_set_col ''has_delta_from_op''
                (map (\<lambda>v. CBool (flair_is_delta_from_op (cell_str v))) flairs) ?df"
  have c1: "columns ?df1
     = [''id'', ''title'', ''author'', ''permalink'', ''url'', ''created_utc'', ''score'',
        ''num_comments'', ''upvote_ratio'', ''link_flair_text'', ''total_awards_received'',
        ''has_delta_from_op'']"
    by (simp add: df_set_col_def columns_fetch_top_submissions)
  obtain df2 where d2: "df_notna ''author'' ?df1 = Inr df2" "columns df2 = columns ?df1"
    by (simp add: df_notna_def c1)
  have "set cols \<subseteq> set (columns df2)"
    by (simp add: d2(2) c1 cols_def)
  then obtain df3 where d3: "df_select cols df2 = Inr df3" "columns df3 = cols"
    by (simp add: df_select_def)
  from ne fl d2(1) d3 Cons show ?thesis
    by (simp add: build_submissions_csv_def Let_def)
qed

section \<open>The marker detector on the documented examples\<close>

text \<open>
  C4. \<open>has_delta\<close> is false on an absent and on an empty text, true on
  "I award you a delta", on the increment sign U+2206 and, whatever the case of the
  letters, on "DELTA AWARDED"; \<open>flair_is_delta_from_op\<close> is false on an absent flair,
  true on "\<Delta> Delta from OP" (the first letter is U+0394) and false on "Delta", which
  lacks "from OP".
\<close>

theorem marker_detector_unit_facts:
  "has_delta None = False
   \<and> has_delta (Some []) = False
   \<and> has_delta (Some (cps ''I award you a delta'')) = True
   \<and> has_delta (Some [0x2206]) = True
   \<and> has_delta (Some (cps ''DELTA AWARDED'')) = True
   \<and> flair_is_delta_from_op None = False
   \<and> flair_is_delta_from_op (Some ([0x394] @ cps '' Delta from OP'')) = True
   \<and> flair_is_delta_from_op (Some (cps ''Delta'')) = False"
  by (simp add: cps_def py_lower_def lower_cp_def py_strip_def py_isspace_def DELTA_TOKENS_def)

section \<open>Order of the rows\<close>

text \<open>
  C10. One run of the body of the loop over the submissions returns normally and appends,
  after the rows already there, the rows of the first \<open>k\<close> comments of the
  submission's flattened sequence, in the order of the sequence and skipping none, where
  \<open>k\<close> is the length of the sequence or what is left of the budget, whichever is
  smaller. The rows of a whole run are therefore the rows of the scanned submissions one
  after the other, each block in the order of its sequence, cut at the budget; the only
  run that returns no rows at all for another reason is the one that raises
  \<open>AttributeError\<close> in the filter of the table, before any submission is scanned.
\<close>

theorem rows_follow_flattened_sequence:
  "(\<exists>A st'. pass1 (op_of s) (rd (srow_id s) rl rt) {} = Inr A
      \<and> scan_submission rd B rl rt s st = Inr st'
      \<and> rows st' = rows st
           @ map (row_of (srow_id s) (op_of s) A)
               (take (min (length (rd (srow_id s) rl rt)) (nat (B - total st)))
                  (rd (srow_id s) rl rt))
      \<and> total st' = total st + int (min (length (rd (srow_id s) rl rt)) (nat (B - total st)))
      \<and> fetched st' = fetched st @ [srow_id s])
   \<and> (if author_is_text subs
      then (\<exists>st. build_comments_csv rd subs n B rl rt = Inr st
        \<and> rows st = take (nat B)
            (concat (map (thread_rows rd rl rt) (df_head n (filter usable_op subs)))))
      else build_comments_csv rd subs n B rl rt = Inl AttributeError)"
proof -
  let ?cs = "rd (srow_id s) rl rt"
  let ?A = "\<Union>c\<in>set ?cs. award_of (op_of s) c"
  let ?st1 = "st\<lparr>rows := rows st @ take (nat (B - total st)) (thread_rows rd rl rt s),
             total := total st
               + int (min (length (thread_rows rd rl rt s)) (nat (B - total st))),
             fetched := fetched st @ [srow_id s]\<rparr>"
  have tk: "take (min (length ?cs) (nat (B - total st))) ?cs = take (nat (B - total st)) ?cs"
    by (simp add: min_def)
  have p1: "pass1 (op_of s) ?cs {} = Inr ?A"
    by (simp add: pass1_eq)
  have sc: "scan_submission rd B rl rt s st = Inr ?st1"
    by (rule scan_submission_eq)
  have r: "rows ?st1 = rows st @ map (row_of (srow_id s) (op_of s) ?A)
               (take (min (length ?cs) (nat (B - total st))) ?cs)"
    by (simp only: tk) (simp add: thread_rows_def Let_def take_map)
  have t: "total ?st1 = total st + int (min (length ?cs) (nat (B - total st)))"
    by (simp add: length_thread_rows)
  have f: "fetched ?st1 = fetched st @ [srow_id s]"
    by simp
  from p1 sc r t f have one: "\<exists>A st'. pass1 (op_of s) (rd (srow_id s) rl rt) {} = Inr A
      \<and> scan_submission rd B rl rt s st = Inr st'
      \<and> rows st' = rows st
           @ map (row_of (srow_id s) (op_of s) A)
               (take (min (length (rd (srow_id s) rl rt)) (nat (B - total st)))
                  (rd (srow_id s) rl rt))
      \<and> total st' = total st + int (min (length (rd (srow_id s) rl rt)) (nat (B - total st)))
      \<and> fetched st' = fetched st @ [srow_id s]"
    by (intro exI[of _ ?A] exI[of _ ?st1] conjI)
  have all: "if author_is_text subs
      then (\<exists>st. build_comments_csv rd subs n B rl rt = Inr st
        \<and> rows st = take (nat B)
            (concat (map (thread_rows rd rl rt) (df_head n (filter usable_op subs)))))
      else build_comments_csv rd subs n B rl rt = Inl AttributeError"
  proof (cases "author_is_text subs")
    case False
    then show ?thesis by (simp add: build_comments_csv_error)
  next
    case True
    have "\<exists>st. build_comments_csv rd subs n B rl rt = Inr st
        \<and> rows st = take (nat B)
            (concat (map (thread_rows rd rl rt) (df_head n (filter usable_op subs))))"
      using build_comments_csv_eq[OF True, of rd n B rl rt]
      by (elim exE conjE) (intro exI conjI)
    with True show ?thesis by (simp only: if_True)
  qed
  from one all show ?thesis by (rule conjI)
qed


section \<open>The row budget\<close>

text \<open>
  C3, amended. For every budget \<open>B\<close> the rows of the run are the first \<open>B\<close> rows
  of the run with any larger budget \<open>B'\<close>, which emits the rows of all scanned
  submissions once it covers them; so a smaller budget neither reorders rows nor changes
  a field of an emitted row. For \<open>B \<ge> 0\<close> the run emits at most \<open>B\<close> rows. For
  \<open>B \<ge> 1\<close> the submissions requested from the client are a prefix of the
  submissions to scan, and each of them was begun while fewer than \<open>B\<close> comments had
  been met. All this is for the runs that get past the filter of the table; on a table
  with rows and no author text the run raises \<open>AttributeError\<close> there under every
  budget, with no row emitted and no submission requested.
\<close>

theorem budget_gives_prefix:
  assumes "B \<le> B'"
  shows "if author_is_text subs
   then (\<exists>st st'. build_comments_csv rd subs n B rl rt = Inr st
     \<and> build_comments_csv rd subs n B' rl rt = Inr st'
     \<and> (0 \<le> B \<longrightarrow> int (length (rows st)) \<le> B)
     \<and> rows st = take (nat B) (rows st')
     \<and> (int (length (scanned_comments rd rl rt (df_head n (filter usable_op subs)))) \<le> B'
          \<longrightarrow> rows st' = concat (map (thread_rows rd rl rt) (df_head n (filter usable_op subs))))
     \<and> (1 \<le> B \<longrightarrow>
          (\<exists>j\<le>length (df_head n (filter usable_op subs)).
             fetched st = map srow_id (take j (df_head n (filter usable_op subs)))
             \<and> (\<forall>i<j. int (length (scanned_comments rd rl rt
                                       (take i (df_head n (filter usable_op subs))))) < B))))
   else build_comments_csv rd subs n B rl rt = Inl AttributeError
        \<and> build_comments_csv rd subs n B' rl rt = Inl AttributeError"
proof (cases "author_is_text subs")
  case False
  then show ?thesis by (simp add: build_comments_csv_error)
next
  case True
  let ?ss = "df_head n (filter usable_op subs)"
  let ?all = "concat (map (thread_rows rd rl rt) ?ss)"
  let ?lens = "map (\<lambda>s. length (thread_rows rd rl rt s)) ?ss"
  obtain st where st: "build_comments_csv rd subs n B rl rt = Inr st"
      "rows st = take (nat B) ?all"
      "fetched st = map srow_id (take (n_scanned B ?lens) ?ss)"
    using build_comments_csv_eq[OF True, of rd n B rl rt] by (elim exE conjE)
  obtain st' where st': "build_comments_csv rd subs n B' rl rt = Inr st'"
      "rows st' = take (nat B') ?all"
    using build_comments_csv_eq[OF True, of rd n B' rl rt] by (elim exE conjE)
  have "length (rows st) \<le> nat B"
    by (simp add: st(2))
  then have len: "0 \<le> B \<longrightarrow> int (length (rows st)) \<le> B"
    by arith
  from assms have "min (nat B) (nat B') = nat B" by simp
  then have pre: "rows st = take (nat B) (rows st')"
    by (simp add: st(2) st'(2))
  have "length (concat (map (thread_rows rd rl rt) ss)) = length (scanned_comments rd rl rt ss)"
    for ss
    by (induction ss) (simp_all add: scanned_comments_def length_thread_rows)
  then have la: "length ?all = length (scanned_comments rd rl rt ?ss)" .
  have full: "int (length (scanned_comments rd rl rt ?ss)) \<le> B' \<longrightarrow> rows st' = ?all"
    using la by (simp add: st'(2))
  have scan: "1 \<le> B \<longrightarrow>
          (\<exists>j\<le>length ?ss. fetched st = map srow_id (take j ?ss)
             \<and> (\<forall>i<j. int (length (scanned_comments rd rl rt (take i ?ss))) < B))"
  proof
    assume B1: "1 \<le> B"
    have "n_scanned B ?lens \<le> length ?ss"
      using n_scanned_le[of B ?lens] by simp
    moreover have "\<forall>i<n_scanned B ?lens. int (length (scanned_comments rd rl rt (take i ?ss))) < B"
    proof (intro allI impI)
      fix i assume "i < n_scanned B ?lens"
      from n_scanned_lt[OF B1 this] show "int (length (scanned_comments rd rl rt (take i ?ss))) < B"
        by (simp add: length_scanned_comments take_map)
    qed
    ultimately show "\<exists>j\<le>length ?ss. fetched st = map srow_id (take j ?ss)
             \<and> (\<forall>i<j. int (length (scanned_comments rd rl rt (take i ?ss))) < B)"
      using st(3) by blast
  qed
  from st(1) st'(1) len pre full scan
  have "\<exists>st st'. build_comments_csv rd subs n B rl rt = Inr st
     \<and> build_comments_csv rd subs n B' rl rt = Inr st'
     \<and> (0 \<le> B \<longrightarrow> int (length (rows st)) \<le> B)
     \<and> rows st = take (nat B) (rows st')
     \<and> (int (length (scanned_comments rd rl rt ?ss)) \<le> B' \<longrightarrow> rows st' = ?all)
     \<and> (1 \<le> B \<longrightarrow>
          (\<exists>j\<le>length ?ss. fetched st = map srow_id (take j ?ss)
             \<and> (\<forall>i<j. int (length (scanned_comments rd rl rt (take i ?ss))) < B)))"
    by (intro exI[of _ st] exI[of _ st'] conjI)
  with True show ?thesis by (simp only: if_True)
qed


text \<open>The amended statement at budgets 1 and 2 on the small thread.\<close>

theorem budget_gives_prefix_witness:
  "(0::int) \<le> 1 \<and> (1::int) \<le> 2
   \<and> author_is_text [example_srow]
   \<and> (\<exists>st st'. build_comments_csv example_reddit [example_srow] 1 1 0 0 = Inr st
     \<and> build_comments_csv example_reddit [example_srow] 1 2 0 0 = Inr st'
     \<and> int (length (rows st)) \<le> 1
     \<and> rows st = take (nat 1) (rows st')
     \<and> map comment_id (rows st') = [Some (cps ''c1''), Some (cps ''c2'')]
     \<and> fetched st = [cps ''p1''])"
proof -
  have h1: "(0::int) \<le> 1" and h2: "(1::int) \<le> 2" by simp_all
  have ss: "df_head 1 (filter usable_op [example_srow]) = [example_srow]"
    by (simp add: df_head_def usable_op_def example_srow_def py_lower_def lower_cp_def cps_def)
  have sc: "scanned_comments example_reddit 0 0 [example_srow]
      = [(example_srow, example_comment), (example_srow, example_reply)]"
    by (simp add: scanned_comments_def example_reddit_def example_srow_def)
  have ids: "map comment_id (thread_rows example_reddit 0 0 example_srow)
      = [Some (cps ''c1''), Some (cps ''c2'')]"
    by (simp add: thread_rows_def Let_def row_of_def example_reddit_def example_srow_def
        example_comment_def example_reply_def)
  have tx: "author_is_text [example_srow]"
    by (simp add: author_is_text_def example_srow_def)
  from budget_gives_prefix[OF h2, of "[example_srow]" example_reddit 1 0 0] tx
  have "\<exists>st st'. build_comments_csv example_reddit [example_srow] 1 1 0 0 = Inr st
     \<and> build_comments_csv example_reddit [example_srow] 1 2 0 0 = Inr st'
     \<and> ((0::int) \<le> 1 \<longrightarrow> int (length (rows st)) \<le> 1)
     \<and> rows st = take (nat 1) (rows st')
     \<and> (int (length (scanned_comments example_reddit 0 0 (df_head 1 (filter usable_op [example_srow])))) \<le> 2
          \<longrightarrow> rows st' = concat (map (thread_rows example_reddit 0 0) (df_head 1 (filter usable_op [example_srow]))))
     \<and> (1 \<le> (1::int) \<longrightarrow>
          (\<exists>j\<le>length (df_head 1 (filter usable_op [example_srow])).
             fetched st = map srow_id (take j (df_head 1 (filter usable_op [example_srow])))
             \<and> (\<forall>i<j. int (length (scanned_comments example_reddit 0 0
                                       (take i (df_head 1 (filter usable_op [example_srow]))))) < 1)))"
    by (simp only: if_True)
  then obtain st st' where r: "build_comments_csv example_reddit [example_srow] 1 1 0 0 = Inr st"
     "build_comments_csv example_reddit [example_srow] 1 2 0 0 = Inr st'"
     "(0::int) \<le> 1 \<longrightarrow> int (length (rows st)) \<le> 1"
     "rows st = take (nat 1) (rows st')"
     "int (length (scanned_comments example_reddit 0 0 (df_head 1 (filter usable_op [example_srow])))) \<le> 2
          \<longrightarrow> rows st' = concat (map (thread_rows example_reddit 0 0) (df_head 1 (filter usable_op [example_srow])))"
     "1 \<le> (1::int) \<longrightarrow>
          (\<exists>j\<le>length (df_head 1 (filter usable_op [example_srow])).
             fetched st = map srow_id (take j (df_head 1 (filter usable_op [example_srow])))
             \<and> (\<forall>i<j. int (length (scanned_comments example_reddit 0 0
                                       (take i (df_head 1 (filter usable_op [example_srow]))))) < 1))"
    by (elim exE conjE)
  from r(5)[unfolded ss sc] have all: "map comment_id (rows st') = [Some (cps ''c1''), Some (cps ''c2'')]"
    by (simp add: ids)
  have sid: "srow_id example_srow = cps ''p1''"
    by (simp add: example_srow_def)
  have len2: "length (thread_rows example_reddit 0 0 example_srow) = 2"
    by (simp add: length_thread_rows example_reddit_def example_srow_def)
  from r(1)[unfolded build_comments_csv_def Let_def ss] tx have f: "fetched st = [cps ''p1'']"
    by (auto simp: init_state_def scan_submission_eq len2 sid)
  from r(3) h1 have le: "int (length (rows st)) \<le> 1" by (rule mp)
  from h1 h2 tx r(1,2) le r(4) all f show ?thesis
    by (intro conjI exI[of _ st] exI[of _ st'])
qed


text \<open>
  C3 as stated fails at the budgets 0 and \<open>-1\<close>. With budget 0 the cap is reached
  before the first submission, and the submission is requested all the same; with budget
  \<open>-1\<close> the run emits no row, which is more than the budget.
\<close>

theorem budget_short_circuit_counterexample:
  "total init_state \<ge> 0
   \<and> build_comments_csv example_reddit [example_srow] 1 0 0 0
       = Inr \<lparr>rows = [], total = 0, fetched = [cps ''p1'']\<rparr>
   \<and> build_comments_csv example_reddit [example_srow] 1 (- 1) 0 0
       = Inr \<lparr>rows = [], total = 0, fetched = [cps ''p1'']\<rparr>
   \<and> \<not> int (length (rows \<lparr>rows = [], total = 0, fetched = [cps ''p1'']\<rparr>)) \<le> - 1"
proof -
  have ss: "df_head 1 (filter usable_op [example_srow]) = [example_srow]"
    by (simp add: df_head_def usable_op_def example_srow_def py_lower_def lower_cp_def cps_def)
  have sid: "srow_id example_srow = cps ''p1''"
    by (simp add: example_srow_def)
  have tx: "author_is_text [example_srow]"
    by (simp add: author_is_text_def example_srow_def)
  have "build_comments_csv example_reddit [example_srow] 1 0 0 0
       = Inr \<lparr>rows = [], total = 0, fetched = [cps ''p1'']\<rparr>"
    unfolding build_comments_csv_def Let_def ss
    by (simp add: tx init_state_def scan_submission_eq sid)
  moreover have "build_comments_csv example_reddit [example_srow] 1 (- 1) 0 0
       = Inr \<lparr>rows = [], total = 0, fetched = [cps ''p1'']\<rparr>"
    unfolding build_comments_csv_def Let_def ss
    by (simp add: tx init_state_def scan_submission_eq sid)
  ultimately show ?thesis
    by (simp add: init_state_def)
qed


section \<open>Submissions without a usable OP\<close>

text \<open>
  Where the filter of the table returns, a row whose author is missing or is the sentinel
  \<open>[deleted]\<close> is not among the submissions that are scanned: the run requests only
  submissions that passed the filter, in their order, and every row it emits belongs to a
  submission it requested. The filter returns exactly when the table has no row or has an
  author text; otherwise the run raises \<open>AttributeError\<close>.
\<close>

lemma unusable_op_never_scanned:
  assumes "srow_author s = None \<or> srow_author s = Some (cps ''[deleted]'')"
  shows "s \<notin> set (df_head n (filter usable_op subs))
     \<and> (if author_is_text subs
        then (\<exists>st. build_comments_csv rd subs n B rl rt = Inr st
         \<and> (\<exists>j. fetched st = map srow_id (take j (df_head n (filter usable_op subs))))
         \<and> rows st = take (nat B)
             (concat (map (thread_rows rd rl rt) (df_head n (filter usable_op subs))))
         \<and> post_id ` set (rows st) \<subseteq> set (fetched st))
        else build_comments_csv rd subs n B rl rt = Inl AttributeError)"
proof -
  let ?ss = "df_head n (filter usable_op subs)"
  from not_usable_op[OF assms] have "s \<notin> set (filter usable_op subs)" by simp
  with set_df_head[of n "filter usable_op subs"] have out: "s \<notin> set ?ss" by blast
  have run: "if author_is_text subs
        then (\<exists>st. build_comments_csv rd subs n B rl rt = Inr st
         \<and> (\<exists>j. fetched st = map srow_id (take j ?ss))
         \<and> rows st = take (nat B) (concat (map (thread_rows rd rl rt) ?ss))
         \<and> post_id ` set (rows st) \<subseteq> set (fetched st))
        else build_comments_csv rd subs n B rl rt = Inl AttributeError"
  proof (cases "author_is_text subs")
    case False
    then show ?thesis by (simp add: build_comments_csv_error)
  next
    case True
    obtain st where st: "build_comments_csv rd subs n B rl rt = Inr st"
        "rows st = take (nat B) (concat (map (thread_rows rd rl rt) ?ss))"
        "fetched st = map srow_id
           (take (n_scanned B (map (\<lambda>s. length (thread_rows rd rl rt s)) ?ss)) ?ss)"
      using build_comments_csv_eq[OF True, of rd n B rl rt] by (elim exE conjE)
    from st(3) have j: "\<exists>j. fetched st = map srow_id (take j ?ss)" by (rule exI)
    have "post_id ` set (rows init_state) \<subseteq> set (fetched init_state)"
      by (simp add: init_state_def)
    moreover from st(1) True have "scan_submissions rd B rl rt ?ss init_state = Inr st"
      by (simp add: build_comments_csv_def Let_def)
    ultimately have p: "post_id ` set (rows st) \<subseteq> set (fetched st)"
      by (rule scan_submissions_post_ids)
    from st(1) j st(2) p
    have "\<exists>st. build_comments_csv rd subs n B rl rt = Inr st
         \<and> (\<exists>j. fetched st = map srow_id (take j ?ss))
         \<and> rows st = take (nat B) (concat (map (thread_rows rd rl rt) ?ss))
         \<and> post_id ` set (rows st) \<subseteq> set (fetched st)"
      by (intro conjI exI[of _ st])
    with True show ?thesis by (simp only: if_True)
  qed
  from out run show ?thesis by (rule conjI)
qed

text \<open>
  C8, on a table whose author cells are all empty. The claim is that the builder excludes
  every row with an absent author before it scans, and goes on with the rest. With a row
  that has an author beside it, the row without one is dropped and the other submission
  is scanned. With no such row beside it, the column is not a column of strings, the
  accessor \<open>.str\<close> of the filter raises \<open>AttributeError\<close>, and the run ends there:
  the guard \<open>notna()\<close> of the same line, written for the absent authors, is never
  applied.
\<close>

theorem all_authors_missing_raises:
  "srow_author example_missing_srow = None
   \<and> build_comments_csv example_reddit [example_missing_srow] 1 10 0 0 = Inl AttributeError
   \<and> map_sum id fetched
        (build_comments_csv example_reddit [example_missing_srow, example_srow] 2 10 0 0)
       = Inr [cps ''p1'']"
proof -
  have m: "srow_author example_missing_srow = None"
    by (simp add: example_missing_srow_def)
  have e: "build_comments_csv example_reddit [example_missing_srow] 1 10 0 0
      = Inl AttributeError"
    by (simp add: build_comments_csv_error author_is_text_def m)
  have tx: "author_is_text [example_missing_srow, example_srow]"
    by (simp add: author_is_text_def example_srow_def)
  have ss: "df_head 2 (filter usable_op [example_missing_srow, example_srow]) = [example_srow]"
    by (simp add: df_head_def usable_op_def example_srow_def example_missing_srow_def
        py_lower_def lower_cp_def cps_def)
  have sid: "srow_id example_srow = cps ''p1''"
    by (simp add: example_srow_def)
  have len2: "length (thread_rows example_reddit 0 0 example_srow) = 2"
    by (simp add: length_thread_rows example_reddit_def example_srow_def)
  have "build_comments_csv example_reddit [example_missing_srow, example_srow] 2 10 0 0
      = scan_submissions example_reddit 10 0 0 [example_srow] init_state"
    unfolding build_comments_csv_def Let_def ss using tx by (simp only: if_True)
  then have f: "map_sum id fetched
        (build_comments_csv example_reddit [example_missing_srow, example_srow] 2 10 0 0)
       = Inr [cps ''p1'']"
    by (simp add: init_state_def scan_submission_eq len2 sid)
  from m e f show ?thesis by (intro conjI)
qed

section \<open>Who can award\<close>

text \<open>
  C5. In pass 1 a comment whose author, as a string, is not exactly the OP handle adds
  nothing to the awarded set, whatever its body: the step returns the set as it was, and
  the pass over a sequence gives the same result with or without that comment. A step
  that changes the set is made by a comment whose author is exactly the OP handle. The
  comparison is equality of code point sequences, so a difference in letter case is a
  difference.
\<close>

theorem op_match_is_exact:
  "(c_author c \<noteq> Some op \<longrightarrow>
      pass1_step op c A = Inr A \<and> pass1 op (xs @ c # ys) A = pass1 op (xs @ ys) A)
   \<and> (pass1_step op d A = Inr A' \<and> A' \<noteq> A \<longrightarrow> c_author d = Some op)"
proof (intro conjI impI)
  assume "c_author c \<noteq> Some op"
  then have e: "award_of op c = {}" by (rule award_of_other_author)
  then show "pass1_step op c A = Inr A" by (simp add: pass1_step_eq)
  from e show "pass1 op (xs @ c # ys) A = pass1 op (xs @ ys) A" by (rule pass1_skip)
next
  assume "pass1_step op d A = Inr A' \<and> A' \<noteq> A"
  then have "award_of op d \<noteq> {}" by (auto simp: pass1_step_eq)
  then show "c_author d = Some op" using award_of_other_author[of d op] by blast
qed


text \<open>
  The statement on the reply signed \<open>Alice\<close> in the thread of \<open>alice\<close>: the names
  agree once lowered, the body has a marker, and nothing is added; the reply signed
  \<open>alice\<close> adds its parent.
\<close>

theorem op_match_is_exact_witness:
  "c_author example_other_case \<noteq> Some (cps ''alice'')
   \<and> map_option py_lower (c_author example_other_case) = Some (cps ''alice'')
   \<and> has_delta (c_body example_other_case)
   \<and> pass1_step (cps ''alice'') example_other_case {} = Inr {}
   \<and> pass1 (cps ''alice'') ([example_comment] @ example_other_case # [example_reply]) {}
       = pass1 (cps ''alice'') ([example_comment] @ [example_reply]) {}
   \<and> pass1_step (cps ''alice'') example_reply {} = Inr {cps ''c1''}
   \<and> {cps ''c1''} \<noteq> ({} :: ustr set)
   \<and> c_author example_reply = Some (cps ''alice'')"
proof -
  have a: "c_author example_other_case \<noteq> Some (cps ''alice'')"
    by (simp add: example_other_case_def cps_def)
  have l: "map_option py_lower (c_author example_other_case) = Some (cps ''alice'')"
    by (simp add: example_other_case_def cps_def py_lower_def lower_cp_def)
  have h: "has_delta (c_body example_other_case)"
    using has_delta_example_reply by (simp add: example_other_case_def)
  have p: "pass1_step (cps ''alice'') example_reply {} = Inr {cps ''c1''}"
    using has_delta_example_reply
    by (simp add: pass1_step_eq award_of_def) (simp add: example_reply_def or_empty_def cps_def)
  have n: "{cps ''c1''} \<noteq> ({} :: ustr set)" by simp
  from op_match_is_exact[of example_other_case "cps ''alice''" "{}" "[example_comment]"
      "[example_reply]" example_reply "{cps ''c1''}"] a p n
  have "pass1_step (cps ''alice'') example_other_case {} = Inr {}"
    "pass1 (cps ''alice'') ([example_comment] @ example_other_case # [example_reply]) {}
       = pass1 (cps ''alice'') ([example_comment] @ [example_reply]) {}"
    "c_author example_reply = Some (cps ''alice'')"
    by blast+
  with a l h p n show ?thesis by (intro conjI)
qed


section \<open>Degenerate comments\<close>

text \<open>
  C7, amended. Pass 1 and the scan of one submission return normally on every sequence
  of comments. A comment with an absent author or an absent body adds nothing to the
  awarded set, and the pass gives the same result with or without it. The same holds for
  a comment whose parent reference does not start with the comment prefix \<open>t1_\<close>: a
  reference to the submission (\<open>t3_\<close>), an absent one or one of any other shape. A
  parent reference that starts with \<open>t1_\<close> is taken for a comment reference whatever
  follows: an award by the OP with such a reference adds the text after the prefix. Two
  awards to the same parent leave the set with that parent once: the set is the one
  before with the parent inserted, one element larger when the parent was not yet in it.
\<close>

theorem degenerate_nodes_never_fail:
  "(\<exists>A'. pass1 op cs A = Inr A')
   \<and> (\<exists>st'. scan_submission rd B rl rt s st = Inr st')
   \<and> (c_author c = None \<or> c_body c = None \<longrightarrow>
        pass1_step op c A = Inr A \<and> pass1 op (xs @ c # ys) A = pass1 op (xs @ ys) A)
   \<and> (\<not> startswith (or_empty (c_parent_id d)) (cps ''t1_'') \<longrightarrow>
        pass1_step op d A = Inr A \<and> pass1 op (xs @ d # ys) A = pass1 op (xs @ ys) A)
   \<and> (c_parent_id e = None \<or> c_parent_id e = Some (cps ''t3_'' @ p) \<longrightarrow>
        pass1_step op e A = Inr A \<and> pass1 op (xs @ e # ys) A = pass1 op (xs @ ys) A)
   \<and> (c_author h = Some op \<and> has_delta (c_body h) \<and> c_parent_id h = Some (cps ''t1_'' @ q)
        \<longrightarrow> pass1_step op h A = Inr (insert q A))
   \<and> (c_author f = Some op \<and> has_delta (c_body f) \<and> c_parent_id f = Some (cps ''t1_'' @ q)
        \<and> c_parent_id g = c_parent_id f \<longrightarrow>
        pass1 op [f, g] A = Inr (insert q A)
        \<and> (finite A \<and> q \<notin> A \<longrightarrow> card (insert q A) = Suc (card A))
        \<and> (\<exists>A'. pass1 op (f # g # cs) A = Inr A' \<and> pass1 op (f # cs) A = Inr A' \<and> q \<in> A'))"
proof (intro conjI impI)
  show "\<exists>A'. pass1 op cs A = Inr A'"
    by (simp add: pass1_eq)
  show "\<exists>st'. scan_submission rd B rl rt s st = Inr st'"
    by (simp add: scan_submission_eq)
next
  assume "c_author c = None \<or> c_body c = None"
  then have e: "award_of op c = {}" using award_of_degenerate[of c op] by blast
  then show "pass1_step op c A = Inr A" by (simp add: pass1_step_eq)
  from e show "pass1 op (xs @ c # ys) A = pass1 op (xs @ ys) A" by (rule pass1_skip)
next
  assume "\<not> startswith (or_empty (c_parent_id d)) (cps ''t1_'')"
  then have e: "award_of op d = {}" using award_of_degenerate[of d op] by blast
  then show "pass1_step op d A = Inr A" by (simp add: pass1_step_eq)
  from e show "pass1 op (xs @ d # ys) A = pass1 op (xs @ ys) A" by (rule pass1_skip)
next
  assume "c_parent_id e = None \<or> c_parent_id e = Some (cps ''t3_'' @ p)"
  then have "\<not> startswith (or_empty (c_parent_id e)) (cps ''t1_'')"
    using t3_not_t1[of p] by (auto simp: or_empty_def cps_def)
  then have e: "award_of op e = {}" using award_of_degenerate[of e op] by blast
  then show "pass1_step op e A = Inr A" by (simp add: pass1_step_eq)
  from e show "pass1 op (xs @ e # ys) A = pass1 op (xs @ ys) A" by (rule pass1_skip)
next
  assume "c_author h = Some op \<and> has_delta (c_body h) \<and> c_parent_id h = Some (cps ''t1_'' @ q)"
  then have "award_of op h = {q}" using award_of_prefixed[of h op q] by blast
  then show "pass1_step op h A = Inr (insert q A)" by (simp add: pass1_step_eq)
next
  assume a: "c_author f = Some op \<and> has_delta (c_body f) \<and> c_parent_id f = Some (cps ''t1_'' @ q)
        \<and> c_parent_id g = c_parent_id f"
  then have af: "award_of op f = {q}" using award_of_prefixed[of f op q] by blast
  from a have "award_of op g \<subseteq> award_of op f" using award_of_same_parent[of f op g] by blast
  with af have ag: "A \<union> {q} \<union> award_of op g = insert q A" by blast
  from af ag show "pass1 op [f, g] A = Inr (insert q A)"
    by (simp add: pass1_step_eq)
  have "pass1 op (f # g # cs) A
      = Inr (A \<union> award_of op f \<union> award_of op g \<union> (\<Union>c\<in>set cs. award_of op c))"
    by (simp add: pass1_step_eq pass1_eq Un_assoc)
  then have "pass1 op (f # g # cs) A = Inr (insert q A \<union> (\<Union>c\<in>set cs. award_of op c))"
    by (simp only: af ag)
  moreover have "pass1 op (f # cs) A
      = Inr (A \<union> award_of op f \<union> (\<Union>c\<in>set cs. award_of op c))"
    by (simp add: pass1_step_eq pass1_eq Un_assoc)
  then have "pass1 op (f # cs) A = Inr (insert q A \<union> (\<Union>c\<in>set cs. award_of op c))"
    by (simp add: af)
  moreover have "q \<in> insert q A \<union> (\<Union>c\<in>set cs. award_of op c)" by simp
  ultimately show "\<exists>A'. pass1 op (f # g # cs) A = Inr A' \<and> pass1 op (f # cs) A = Inr A' \<and> q \<in> A'"
    by (intro exI[of _ "insert q A \<union> (\<Union>c\<in>set cs. award_of op c)"] conjI)
next
  assume "finite A \<and> q \<notin> A"
  then show "card (insert q A) = Suc (card A)" by simp
qed

text \<open>
  The amended statement on the first comment with its author removed, on the award by
  the OP that answers the submission itself, on the award to the first comment, and on
  two awards to it: from the empty set they give the set of the one identifier \<open>c1\<close>.
\<close>

theorem degenerate_nodes_never_fail_witness:
  "(c_author example_no_author = None \<or> c_body example_no_author = None)
   \<and> pass1_step (cps ''alice'') example_no_author {} = Inr {}
   \<and> \<not> startswith (or_empty (c_parent_id example_root_reply)) (cps ''t1_'')
   \<and> (c_parent_id example_root_reply = None
        \<or> c_parent_id example_root_reply = Some (cps ''t3_'' @ cps ''p1''))
   \<and> c_author example_root_reply = Some (cps ''alice'')
   \<and> has_delta (c_body example_root_reply)
   \<and> pass1_step (cps ''alice'') example_root_reply {} = Inr {}
   \<and> pass1 (cps ''alice'') ([example_comment] @ example_root_reply # [example_reply]) {}
       = pass1 (cps ''alice'') ([example_comment] @ [example_reply]) {}
   \<and> c_author example_reply = Some (cps ''alice'')
   \<and> has_delta (c_body example_reply)
   \<and> c_parent_id example_reply = Some (cps ''t1_'' @ cps ''c1'')
   \<and> c_parent_id example_second_reply = c_parent_id example_reply
   \<and> pass1_step (cps ''alice'') example_reply {} = Inr (insert (cps ''c1'') {})
   \<and> pass1 (cps ''alice'') [example_reply, example_second_reply] {} = Inr (insert (cps ''c1'') {})
   \<and> finite ({} :: ustr set) \<and> cps ''c1'' \<notin> ({} :: ustr set)
   \<and> card (insert (cps ''c1'') ({} :: ustr set)) = Suc (card ({} :: ustr set))"
proof -
  have a: "c_author example_no_author = None \<or> c_body example_no_author = None"
    by (simp add: example_no_author_def)
  have t3: "c_parent_id example_root_reply = None
        \<or> c_parent_id example_root_reply = Some (cps ''t3_'' @ cps ''p1'')"
    by (simp add: example_root_reply_def cps_def)
  have nt: "\<not> startswith (or_empty (c_parent_id example_root_reply)) (cps ''t1_'')"
    by (simp add: example_root_reply_def or_empty_def cps_def)
  have au: "c_author example_root_reply = Some (cps ''alice'')"
    by (simp add: example_root_reply_def example_reply_def)
  have hd: "has_delta (c_body example_root_reply)"
    using has_delta_example_reply by (simp add: example_root_reply_def)
  have ar: "c_author example_reply = Some (cps ''alice'')"
    by (simp add: example_reply_def)
  have pr: "c_parent_id example_reply = Some (cps ''t1_'' @ cps ''c1'')"
    by (simp add: example_reply_def cps_def)
  have sp: "c_parent_id example_second_reply = c_parent_id example_reply"
    by (simp add: example_second_reply_def)
  have fin: "finite ({} :: ustr set) \<and> cps ''c1'' \<notin> ({} :: ustr set)"
    by simp
  note T = degenerate_nodes_never_fail[where op = "cps ''alice''" and cs = "[example_comment]"
      and A = "{}" and rd = example_reddit and B = 10 and rl = 0 and rt = 0
      and s = example_srow and st = init_state and c = example_no_author
      and xs = "[example_comment]" and ys = "[example_reply]" and d = example_root_reply
      and e = example_root_reply and p = "cps ''p1''" and h = example_reply
      and q = "cps ''c1''" and f = example_reply and g = example_second_reply]
  from T a have c1: "pass1_step (cps ''alice'') example_no_author {} = Inr {}"
    by blast
  from T nt have c2: "pass1_step (cps ''alice'') example_root_reply {} = Inr {}"
    "pass1 (cps ''alice'') ([example_comment] @ example_root_reply # [example_reply]) {}
       = pass1 (cps ''alice'') ([example_comment] @ [example_reply]) {}"
    by blast+
  from T ar has_delta_example_reply pr
  have c3: "pass1_step (cps ''alice'') example_reply {} = Inr (insert (cps ''c1'') {})"
    by blast
  from T ar has_delta_example_reply pr sp
  have c4: "pass1 (cps ''alice'') [example_reply, example_second_reply] {}
       = Inr (insert (cps ''c1'') {})"
    by blast
  from T ar has_delta_example_reply pr sp fin
  have c5: "card (insert (cps ''c1'') ({} :: ustr set)) = Suc (card ({} :: ustr set))"
    by blast
  from a c1 nt t3 au hd c2 ar has_delta_example_reply pr sp c3 c4 fin c5 show ?thesis
    by (intro conjI) blast+
qed

text \<open>
  C7 as stated fails on parent references that are malformed and yet start with
  \<open>t1_\<close>. An award by the OP whose parent reference is the bare prefix adds the empty
  identifier to the awarded set, and one whose parent reference is \<open>t1_a_b\<close> adds
  \<open>a_b\<close>: line 185 tests the prefix only.
\<close>

theorem malformed_prefixed_reference_counterexample:
  "c_author example_bare_prefix = Some (cps ''alice'')
   \<and> has_delta (c_body example_bare_prefix)
   \<and> c_parent_id example_bare_prefix = Some (cps ''t1_'')
   \<and> pass1_step (cps ''alice'') example_bare_prefix {} = Inr {[]}
   \<and> c_author example_two_underscores = Some (cps ''alice'')
   \<and> has_delta (c_body example_two_underscores)
   \<and> c_parent_id example_two_underscores = Some (cps ''t1_a_b'')
   \<and> pass1_step (cps ''alice'') example_two_underscores {} = Inr {cps ''a_b''}"
proof -
  have a1: "c_author example_bare_prefix = Some (cps ''alice'')"
    by (simp add: example_bare_prefix_def example_reply_def)
  have h1: "has_delta (c_body example_bare_prefix)"
    using has_delta_example_reply by (simp add: example_bare_prefix_def)
  have p1: "c_parent_id example_bare_prefix = Some (cps ''t1_'')"
    by (simp add: example_bare_prefix_def)
  have p1': "c_parent_id example_bare_prefix = Some (cps ''t1_'' @ [])"
    by (simp add: example_bare_prefix_def)
  have s1: "pass1_step (cps ''alice'') example_bare_prefix {} = Inr {[]}"
    using award_of_prefixed[OF a1 h1 p1'] by (simp add: pass1_step_eq)
  have a2: "c_author example_two_underscores = Some (cps ''alice'')"
    by (simp add: example_two_underscores_def example_reply_def)
  have h2: "has_delta (c_body example_two_underscores)"
    using has_delta_example_reply by (simp add: example_two_underscores_def)
  have p2: "c_parent_id example_two_underscores = Some (cps ''t1_a_b'')"
    by (simp add: example_two_underscores_def)
  have p2': "c_parent_id example_two_underscores = Some (cps ''t1_'' @ cps ''a_b'')"
    by (simp add: example_two_underscores_def cps_def)
  have s2: "pass1_step (cps ''alice'') example_two_underscores {} = Inr {cps ''a_b''}"
    using award_of_prefixed[OF a2 h2 p2'] by (simp add: pass1_step_eq)
  from a1 h1 p1 s1 a2 h2 p2 s2 show ?thesis by (intro conjI)
qed

section \<open>Comments without an author\<close>

text \<open>
  C6. A comment whose author is absent is emitted like any other comment: its row is
  there exactly when the budget reaches its place in the sequence. The row carries the
  comment's identifier, no author and \<open>is_op = False\<close>, and its \<open>delta_awarded\<close> is
  true exactly when a comment of the sequence by the OP, with a marker in its body, has a
  parent reference that denotes it.
\<close>

theorem absent_author_still_target:
  assumes "i < length (rd (srow_id s) rl rt)"
      and "c_author (rd (srow_id s) rl rt ! i) = None"
  shows "\<exists>st'. scan_submission rd B rl rt s st = Inr st'
     \<and> (length (rows st) + i < length (rows st')) = (int i < B - total st)
     \<and> (int i < B - total st \<longrightarrow>
          comment_id (rows st' ! (length (rows st) + i)) = c_id (rd (srow_id s) rl rt ! i)
        \<and> author (rows st' ! (length (rows st) + i)) = None
        \<and> is_op (rows st' ! (length (rows st) + i)) = False
        \<and> delta_awarded (rows st' ! (length (rows st) + i))
            = list_ex (\<lambda>D. parent_denotes D (rd (srow_id s) rl rt ! i)
                          \<and> c_author D = Some (op_of s) \<and> has_delta (c_body D))
                (rd (srow_id s) rl rt))"
proof -
  let ?cs = "rd (srow_id s) rl rt"
  obtain st' where st': "scan_submission rd B rl rt s st = Inr st'"
    by (simp add: scan_submission_eq)
  from scan_submission_rows(1)[OF st'] assms(1)
  have l: "(length (rows st) + i < length (rows st')) = (int i < B - total st)"
    by (simp; arith)
  have r: "int i < B - total st \<longrightarrow>
          comment_id (rows st' ! (length (rows st) + i)) = c_id (?cs ! i)
        \<and> author (rows st' ! (length (rows st) + i)) = None
        \<and> is_op (rows st' ! (length (rows st) + i)) = False
        \<and> delta_awarded (rows st' ! (length (rows st) + i))
            = list_ex (\<lambda>D. parent_denotes D (?cs ! i)
                          \<and> c_author D = Some (op_of s) \<and> has_delta (c_body D)) ?cs"
  proof
    assume "int i < B - total st"
    from scan_submission_rows(2)[OF st' assms(1) this] assms(2)
    show "comment_id (rows st' ! (length (rows st) + i)) = c_id (?cs ! i)
        \<and> author (rows st' ! (length (rows st) + i)) = None
        \<and> is_op (rows st' ! (length (rows st) + i)) = False
        \<and> delta_awarded (rows st' ! (length (rows st) + i))
            = list_ex (\<lambda>D. parent_denotes D (?cs ! i)
                          \<and> c_author D = Some (op_of s) \<and> has_delta (c_body D)) ?cs"
      by (simp add: row_of_def delta_link spec_delta_awarded_def)
  qed
  from st' l r show ?thesis by (intro exI[of _ st'] conjI)
qed


text \<open>
  The statement on the small thread with the author of the first comment removed: the
  row is emitted, is not the OP's, and has the delta of the reply.
\<close>

theorem absent_author_still_target_witness:
  "0 < length (example_reddit_no_author (srow_id example_srow) 0 0)
   \<and> c_author (example_reddit_no_author (srow_id example_srow) 0 0 ! 0) = None
   \<and> (\<exists>st'. scan_submission example_reddit_no_author 10 0 0 example_srow init_state = Inr st'
        \<and> length (rows init_state) + 0 < length (rows st')
        \<and> comment_id (rows st' ! (length (rows init_state) + 0)) = Some (cps ''c1'')
        \<and> author (rows st' ! (length (rows init_state) + 0)) = None
        \<and> is_op (rows st' ! (length (rows init_state) + 0)) = False
        \<and> delta_awarded (rows st' ! (length (rows init_state) + 0)) = True)"
proof -
  have h1: "0 < length (example_reddit_no_author (srow_id example_srow) 0 0)"
    by (simp add: example_reddit_no_author_def)
  have h2: "c_author (example_reddit_no_author (srow_id example_srow) 0 0 ! 0) = None"
    by (simp add: example_reddit_no_author_def example_no_author_def)
  have b: "int 0 < 10 - total init_state"
    by (simp add: init_state_def)
  have cid: "c_id (example_reddit_no_author (srow_id example_srow) 0 0 ! 0) = Some (cps ''c1'')"
    by (simp add: example_reddit_no_author_def example_no_author_def example_comment_def)
  have pd: "parent_denotes example_reply example_no_author"
    by (simp add: parent_denotes_def example_reply_def example_no_author_def example_comment_def
        cps_def)
  have ar: "c_author example_reply = Some (op_of example_srow)"
    by (simp add: example_srow_fields example_reply_def)
  have ex: "list_ex (\<lambda>D. parent_denotes D (example_reddit_no_author (srow_id example_srow) 0 0 ! 0)
                          \<and> c_author D = Some (op_of example_srow) \<and> has_delta (c_body D))
                (example_reddit_no_author (srow_id example_srow) 0 0) = True"
    using pd ar has_delta_example_reply by (simp add: example_reddit_no_author_def)
  from absent_author_still_target[of 0 example_reddit_no_author example_srow 0 0 10 init_state, OF h1 h2]
  obtain st' where r:
    "scan_submission example_reddit_no_author 10 0 0 example_srow init_state = Inr st'"
    "(length (rows init_state) + 0 < length (rows st')) = (int 0 < 10 - total init_state)"
    "int 0 < 10 - total init_state \<longrightarrow>
          comment_id (rows st' ! (length (rows init_state) + 0))
            = c_id (example_reddit_no_author (srow_id example_srow) 0 0 ! 0)
        \<and> author (rows st' ! (length (rows init_state) + 0)) = None
        \<and> is_op (rows st' ! (length (rows init_state) + 0)) = False
        \<and> delta_awarded (rows st' ! (length (rows init_state) + 0))
            = list_ex (\<lambda>D. parent_denotes D (example_reddit_no_author (srow_id example_srow) 0 0 ! 0)
                          \<and> c_author D = Some (op_of example_srow) \<and> has_delta (c_body D))
                (example_reddit_no_author (srow_id example_srow) 0 0)"
    by (elim exE conjE)
  from r(2) b have l: "length (rows init_state) + 0 < length (rows st')" by (simp only:)
  from r(3) b have f: "comment_id (rows st' ! (length (rows init_state) + 0)) = Some (cps ''c1'')"
      "author (rows st' ! (length (rows init_state) + 0)) = None"
      "is_op (rows st' ! (length (rows init_state) + 0)) = False"
      "delta_awarded (rows st' ! (length (rows init_state) + 0)) = True"
    by (simp_all only: cid ex)
  from h1 h2 r(1) l f show ?thesis
    by (intro conjI exI[of _ st'])
qed


section \<open>A comment's own body and author\<close>

text \<open>
  C2. In a comment tree the parent of a comment is another comment or the thread, never
  the comment itself. For a comment of such a sequence the emitted \<open>delta_awarded\<close>
  does not depend on the comment's own body and author: two scans of sequences that
  differ only in these two fields of that comment give its row the same flag. The flag
  is the specification's predicate over the other comments of the sequence, so a comment
  does not award itself a delta.
\<close>

theorem own_body_and_author_do_not_matter:
  assumes "i < length (rd (srow_id s) rl rt)"
      and "rd' (srow_id s) rl rt
             = (rd (srow_id s) rl rt)[i := (rd (srow_id s) rl rt ! i)\<lparr>c_body := b, c_author := a\<rparr>]"
      and "\<not> parent_denotes (rd (srow_id s) rl rt ! i) (rd (srow_id s) rl rt ! i)"
      and "int i < B - total st"
  shows "\<exists>st1 st2. scan_submission rd B rl rt s st = Inr st1
     \<and> scan_submission rd' B rl rt s st = Inr st2
     \<and> delta_awarded (rows st1 ! (length (rows st) + i))
         = delta_awarded (rows st2 ! (length (rows st) + i))
     \<and> delta_awarded (rows st1 ! (length (rows st) + i))
         = spec_delta_awarded (op_of s)
             (take i (rd (srow_id s) rl rt) @ drop (Suc i) (rd (srow_id s) rl rt))
             (rd (srow_id s) rl rt ! i)"
proof -
  let ?cs = "rd (srow_id s) rl rt"
  let ?C = "?cs ! i"
  let ?C' = "?C\<lparr>c_body := b, c_author := a\<rparr>"
  let ?cs' = "rd' (srow_id s) rl rt"
  let ?others = "take i ?cs @ drop (Suc i) ?cs"
  obtain st1 where st1: "scan_submission rd B rl rt s st = Inr st1"
    by (simp add: scan_submission_eq)
  obtain st2 where st2: "scan_submission rd' B rl rt s st = Inr st2"
    by (simp add: scan_submission_eq)
  have len': "length ?cs' = length ?cs" and nth': "?cs' ! i = ?C'"
    using assms(1) by (simp_all add: assms(2))
  have others': "take i ?cs' @ drop (Suc i) ?cs' = ?others"
    by (simp add: assms(2))
  have d1: "delta_awarded (rows st1 ! (length (rows st) + i)) = spec_delta_awarded (op_of s) ?cs ?C"
    using st1 assms(1) assms(4) by (rule scan_submission_delta)
  from assms(1) len' have i': "i < length ?cs'" by simp
  have "delta_awarded (rows st2 ! (length (rows st) + i))
      = spec_delta_awarded (op_of s) ?cs' (?cs' ! i)"
    using st2 i' assms(4) by (rule scan_submission_delta)
  then have d2: "delta_awarded (rows st2 ! (length (rows st) + i))
      = spec_delta_awarded (op_of s) ?cs' ?C'"
    by (simp only: nth')
  have o1: "spec_delta_awarded (op_of s) ?cs ?C = spec_delta_awarded (op_of s) ?others ?C"
    using assms(1) assms(3) by (rule spec_delta_awarded_others)
  have "\<not> parent_denotes (?cs' ! i) ?C'"
    using assms(3) by (simp add: nth' parent_denotes_update)
  with i' have "spec_delta_awarded (op_of s) ?cs' ?C'
      = spec_delta_awarded (op_of s) (take i ?cs' @ drop (Suc i) ?cs') ?C'"
    by (rule spec_delta_awarded_others)
  also have "\<dots> = spec_delta_awarded (op_of s) ?others ?C"
    by (simp only: others') (simp add: spec_delta_awarded_def parent_denotes_update)
  finally have o2: "spec_delta_awarded (op_of s) ?cs' ?C' = spec_delta_awarded (op_of s) ?others ?C" .
  from d1 d2 o1 o2
  have e: "delta_awarded (rows st1 ! (length (rows st) + i))
         = delta_awarded (rows st2 ! (length (rows st) + i))"
    and o: "delta_awarded (rows st1 ! (length (rows st) + i))
         = spec_delta_awarded (op_of s) ?others ?C"
    by simp_all
  from st1 st2 e o show ?thesis
    by (intro exI[of _ st1] exI[of _ st2] conjI)
qed


text \<open>
  The statement on the first comment of the small thread, rewritten as an award by the
  OP: its flag stays true, given by the reply.
\<close>

theorem own_body_and_author_do_not_matter_witness:
  "0 < length (example_reddit (srow_id example_srow) 0 0)
   \<and> example_reddit_edited (srow_id example_srow) 0 0
       = (example_reddit (srow_id example_srow) 0 0)
           [0 := (example_reddit (srow_id example_srow) 0 0 ! 0)
                   \<lparr>c_body := Some (cps ''!delta''), c_author := Some (cps ''alice'')\<rparr>]
   \<and> \<not> parent_denotes (example_reddit (srow_id example_srow) 0 0 ! 0)
                        (example_reddit (srow_id example_srow) 0 0 ! 0)
   \<and> int 0 < 10 - total init_state
   \<and> (\<exists>st1 st2. scan_submission example_reddit 10 0 0 example_srow init_state = Inr st1
        \<and> scan_submission example_reddit_edited 10 0 0 example_srow init_state = Inr st2
        \<and> delta_awarded (rows st1 ! (length (rows init_state) + 0))
            = delta_awarded (rows st2 ! (length (rows init_state) + 0))
        \<and> delta_awarded (rows st1 ! (length (rows init_state) + 0)) = True)"
proof -
  have cs: "example_reddit (srow_id example_srow) 0 0 = [example_comment, example_reply]"
    by (simp add: example_reddit_def example_srow_fields)
  have h1: "0 < length (example_reddit (srow_id example_srow) 0 0)"
    by (simp add: cs)
  have h2: "example_reddit_edited (srow_id example_srow) 0 0
       = (example_reddit (srow_id example_srow) 0 0)
           [0 := (example_reddit (srow_id example_srow) 0 0 ! 0)
                   \<lparr>c_body := Some (cps ''!delta''), c_author := Some (cps ''alice'')\<rparr>]"
    by (simp add: cs) (simp add: example_reddit_edited_def example_srow_fields)
  have h3: "\<not> parent_denotes (example_reddit (srow_id example_srow) 0 0 ! 0)
                        (example_reddit (srow_id example_srow) 0 0 ! 0)"
    by (simp add: cs) (simp add: parent_denotes_def example_comment_def cps_def)
  have h4: "int 0 < 10 - total init_state"
    by (simp add: init_state_def)
  have pd: "parent_denotes example_reply example_comment"
    by (simp add: parent_denotes_def example_reply_def example_comment_def cps_def)
  have ar: "c_author example_reply = Some (op_of example_srow)"
    by (simp add: example_srow_fields example_reply_def)
  have sp: "spec_delta_awarded (op_of example_srow)
             (take 0 (example_reddit (srow_id example_srow) 0 0)
                @ drop (Suc 0) (example_reddit (srow_id example_srow) 0 0))
             (example_reddit (srow_id example_srow) 0 0 ! 0) = True"
    using pd ar has_delta_example_reply by (simp add: cs spec_delta_awarded_def)
  from own_body_and_author_do_not_matter[where i = 0 and rd = example_reddit
      and s = example_srow and rl = 0 and rt = 0 and rd' = example_reddit_edited
      and b = "Some (cps ''!delta'')" and a = "Some (cps ''alice'')" and B = 10
      and st = init_state, OF h1 h2 h3 h4]
  obtain st1 st2 where r:
    "scan_submission example_reddit 10 0 0 example_srow init_state = Inr st1"
    "scan_submission example_reddit_edited 10 0 0 example_srow init_state = Inr st2"
    "delta_awarded (rows st1 ! (length (rows init_state) + 0))
       = delta_awarded (rows st2 ! (length (rows init_state) + 0))"
    "delta_awarded (rows st1 ! (length (rows init_state) + 0))
       = spec_delta_awarded (op_of example_srow)
             (take 0 (example_reddit (srow_id example_srow) 0 0)
                @ drop (Suc 0) (example_reddit (srow_id example_srow) 0 0))
             (example_reddit (srow_id example_srow) 0 0 ! 0)"
    by (elim exE conjE)
  from r(4) have t: "delta_awarded (rows st1 ! (length (rows init_state) + 0)) = True"
    by (simp only: sp)
  from h1 h2 h3 h4 r(1-3) t show ?thesis
    by (intro conjI exI[of _ st1] exI[of _ st2])
qed


section \<open>The submissions table of an empty listing\<close>

text \<open>
  C9, on a listing without items. The claim is that every run writes the twelve columns
  of \<open>cols\<close>. On an empty listing \<open>df.empty\<close> holds, the frame built from no
  dictionary is written as it is, and it has no column at all; the selection of
  \<open>cols\<close> that the other branch makes is never reached.
\<close>

theorem empty_listing_writes_no_columns:
  "build_submissions_csv [] = Inr \<lparr>columns = [], frame_rows = []\<rparr>
   \<and> columns \<lparr>columns = [], frame_rows = []\<rparr> \<noteq> cols"
  by (simp add: build_submissions_csv_def fetch_top_submissions_def DataFrame_def df_empty_def
      cols_def)

end
